theory Spec2Isabelle
  imports Main "HOL-Library.Sublist" "HOL-Library.Multiset" "HOL-Library.Char_ord"
    "HOL-Library.List_Lexorder"
begin

section \<open>Data model\<close>

text \<open>
  Go strings are byte sequences; they are modelled by \<open>string\<close> (a list of 8-bit
  characters). \<open>RedirectType\<close>, \<open>RedirectStatus\<close> and \<open>PageType\<close> are
  string types of the source with named constants, so any string is a value of them.
\<close>

type_synonym RedirectType = string

definition RedirectTypeBasic :: RedirectType where
  "RedirectTypeBasic = ''BASIC''"

definition RedirectTypeBasicHost :: RedirectType where
  "RedirectTypeBasicHost = ''BASIC_HOST''"

definition RedirectTypeRegex :: RedirectType where
  "RedirectTypeRegex = ''REGEX''"

definition RedirectTypeRegexHost :: RedirectType where
  "RedirectTypeRegexHost = ''REGEX_HOST''"

type_synonym RedirectStatus = string

definition RedirectStatusMovedPermanent :: RedirectStatus where
  "RedirectStatusMovedPermanent = ''MOVED_PERMANENT''"

definition RedirectStatusFound :: RedirectStatus where
  "RedirectStatusFound = ''FOUND''"

definition RedirectStatusTemporary :: RedirectStatus where
  "RedirectStatusTemporary = ''TEMPORARY_REDIRECT''"

definition RedirectStatusPermanent :: RedirectStatus where
  "RedirectStatusPermanent = ''PERMANENT_REDIRECT''"

record Redirect =
  Type :: RedirectType
  Source :: string
  Target :: string
  Status :: RedirectStatus

text \<open>\<open>Redirect.HTTPCode\<close>: the switch over \<open>r.Status\<close> with its default branch.\<close>

definition HTTPCode :: "Redirect \<Rightarrow> int" where
  "HTTPCode r =
     (if Status r = RedirectStatusMovedPermanent then 301
      else if Status r = RedirectStatusFound then 302
      else if Status r = RedirectStatusTemporary then 307
      else if Status r = RedirectStatusPermanent then 308
      else 302)"

type_synonym PageType = string

definition PageTypeBasic :: PageType where
  "PageTypeBasic = ''BASIC''"

definition PageTypeBasicHost :: PageType where
  "PageTypeBasicHost = ''BASIC_HOST''"

type_synonym PageContentType = string

record Page =
  Type :: PageType
  Path :: string
  Content :: string
  ContentType :: PageContentType

section \<open>The prefix tree of github.com/armon/go-radix\<close>

text \<open>
  The tree is a library outside the repository. It is modelled by its contents in the
  order in which the library's walk visits them: a list of key/value pairs kept in
  ascending byte-wise lexicographic key order (a node's own leaf is visited before its
  edges, and edges are kept sorted by their first byte); \<open>(<)\<close> on \<open>string\<close> is that
  order. \<open>Insert\<close> replaces the value of
  a key that is already present, \<open>Get\<close> is exact lookup, and \<open>WalkPrefix\<close> calls the
  function on every entry whose key starts with the given prefix until the function
  returns \<open>True\<close>.
\<close>

type_synonym 'v radix_Tree = "(string \<times> 'v) list"

definition radix_New :: "'v radix_Tree" where
  "radix_New = []"

fun radix_Insert :: "'v radix_Tree \<Rightarrow> string \<Rightarrow> 'v \<Rightarrow> 'v radix_Tree" where
  "radix_Insert [] k v = [(k, v)]"
| "radix_Insert ((k', v') # t) k v =
     (if k = k' then (k, v) # t
      else if k < k' then (k, v) # (k', v') # t
      else (k', v') # radix_Insert t k v)"

definition radix_Get :: "'v radix_Tree \<Rightarrow> string \<Rightarrow> 'v option" where
  "radix_Get t k = map_of t k"

fun walk :: "(string \<times> 'v) list \<Rightarrow> (string \<Rightarrow> 'v \<Rightarrow> 's \<Rightarrow> bool \<times> 's) \<Rightarrow> 's \<Rightarrow> 's" where
  "walk [] fn s = s"
| "walk ((k, v) # es) fn s =
     (case fn k v s of (stop, s') \<Rightarrow> if stop then s' else walk es fn s')"

definition radix_WalkPrefix ::
  "'v radix_Tree \<Rightarrow> string \<Rightarrow> (string \<Rightarrow> 'v \<Rightarrow> 's \<Rightarrow> bool \<times> 's) \<Rightarrow> 's \<Rightarrow> 's" where
  "radix_WalkPrefix t p fn s = walk (filter (\<lambda>(k, v). prefix p k) t) fn s"

section \<open>PageTree\<close>

record PageTree =
  basicHost :: "Page radix_Tree"
  basic :: "Page radix_Tree"

definition NewPageTreeMatcher :: PageTree where
  "NewPageTreeMatcher = \<lparr>basicHost = radix_New, basic = radix_New\<rparr>"

text \<open>\<open>PageTree.Insert\<close>: a switch over \<open>p.Type\<close> with no default branch.\<close>

definition PageTree_Insert :: "PageTree \<Rightarrow> Page \<Rightarrow> PageTree" where
  "PageTree_Insert pt p =
     (if Page.Type p = PageTypeBasicHost
        then pt\<lparr>PageTree.basicHost := radix_Insert (PageTree.basicHost pt) (Path p) p\<rparr>
      else if Page.Type p = PageTypeBasic
        then pt\<lparr>PageTree.basic := radix_Insert (PageTree.basic pt) (Path p) p\<rparr>
      else pt)"

text \<open>\<open>PageTree.Match\<close>: \<open>None\<close> is the nil page.\<close>

definition PageTree_Match :: "PageTree \<Rightarrow> string \<Rightarrow> string \<Rightarrow> Page option" where
  "PageTree_Match pt host uri =
     (let hostURI = host @ uri in
      case radix_Get (PageTree.basicHost pt) hostURI of
        Some val \<Rightarrow> Some val
      | None \<Rightarrow>
          (case radix_Get (PageTree.basic pt) uri of
             Some val \<Rightarrow> Some val
           | None \<Rightarrow> None))"

section \<open>Library functions the matcher calls\<close>

text \<open>
  \<open>strings.HasPrefix\<close> is \<open>prefix\<close>. \<open>strings.TrimPrefix\<close> removes one leading copy.
\<close>

definition strings_TrimPrefix :: "string \<Rightarrow> string \<Rightarrow> string" where
  "strings_TrimPrefix s p = (if prefix p s then drop (length p) s else s)"

text \<open>
  \<open>strings.ReplaceAll s old new\<close> replaces the non-overlapping occurrences of \<open>old\<close>
  from left to right. The source only passes a two-or-more byte \<open>old\<close>; for an empty
  \<open>old\<close> the library inserts \<open>new\<close> at every rune boundary, which the model renders
  per byte.
\<close>

function strings_ReplaceAll :: "string \<Rightarrow> string \<Rightarrow> string \<Rightarrow> string" where
  "strings_ReplaceAll [] old new = (if old = [] then new else [])"
| "strings_ReplaceAll (c # cs) old new =
     (if old = [] then new @ c # strings_ReplaceAll cs old new
      else if prefix old (c # cs)
        then new @ strings_ReplaceAll (drop (length old) (c # cs)) old new
      else c # strings_ReplaceAll cs old new)"
  by pat_completeness auto
termination
  by (relation "measure (\<lambda>(s, old, new). length s)") auto

text \<open>
  \<open>string(rune(r))\<close>: the UTF-8 encoding of a code point; surrogates and values outside
  the Unicode range become the encoding of U+FFFD.
\<close>

definition string_of_rune :: "int \<Rightarrow> string" where
  "string_of_rune r =
     (if r < 0 \<or> r > 0x10FFFF \<or> (0xD800 \<le> r \<and> r \<le> 0xDFFF)
        then [char_of (0xEF :: nat), char_of (0xBF :: nat), char_of (0xBD :: nat)]
      else if r < 0x80 then [char_of (nat r)]
      else if r < 0x800
        then [char_of (0xC0 + nat r div 64), char_of (0x80 + nat r mod 64)]
      else if r < 0x10000
        then [char_of (0xE0 + nat r div 4096), char_of (0x80 + (nat r div 64) mod 64),
              char_of (0x80 + nat r mod 64)]
      else [char_of (0xF0 + nat r div 262144), char_of (0x80 + (nat r div 4096) mod 64),
            char_of (0x80 + (nat r div 64) mod 64), char_of (0x80 + nat r mod 64)])"

definition string_of_runes :: "int list \<Rightarrow> string" where
  "string_of_runes rs = concat (map string_of_rune rs)"

text \<open>
  The parse tree of \<open>regexp/syntax\<close>: the struct \<open>syntax.Regexp\<close> with its operator
  codes. \<open>Flags\<close> is the bit set of the library (bit 0 is \<open>FoldCase\<close>); a tree parsed
  with \<open>syntax.Perl\<close> carries the flags 212 on its nodes.
\<close>

datatype syntax_Op =
    OpNoMatch | OpEmptyMatch | OpLiteral | OpCharClass | OpAnyCharNotNL | OpAnyChar
  | OpBeginLine | OpEndLine | OpBeginText | OpEndText | OpWordBoundary | OpNoWordBoundary
  | OpCapture | OpStar | OpPlus | OpQuest | OpRepeat | OpConcat | OpAlternate

datatype syntax_Regexp =
  Regexp (Op: syntax_Op) (Flags: nat) (Sub: "syntax_Regexp list") (Rune: "int list")
         (Min: int) (Max: int) (Cap: int) (Name: string)

definition syntax_Perl :: nat where
  "syntax_Perl = 212"

type_synonym error = string

text \<open>
  A compiled \<open>*regexp.Regexp\<close> is used by the matcher through \<open>FindStringSubmatch\<close>
  only, and is modelled by that function: \<open>None\<close> is the nil slice (no match),
  \<open>Some ms\<close> the submatches, \<open>ms ! 0\<close> being the text of the whole match.
\<close>

type_synonym regexp_Regexp = "string \<Rightarrow> string list option"

record compiledRedirect =
  Redirect :: Redirect
  regex :: "regexp_Regexp option"

record regexBucket =
  redirects :: "compiledRedirect list"

text \<open>
  The functions of the Go standard library that the matcher calls and that are not
  modelled here are parameters of the model: \<open>regexp.Compile\<close>, \<open>syntax.Parse\<close> and
  \<open>sort.Slice\<close> (which takes the comparison as a function of two elements instead of
  two indices).
\<close>

record stdlib =
  regexp_Compile :: "string \<Rightarrow> error + regexp_Regexp"
  syntax_Parse :: "string \<Rightarrow> nat \<Rightarrow> error + syntax_Regexp"
  sort_Slice :: "compiledRedirect list \<Rightarrow> (compiledRedirect \<Rightarrow> compiledRedirect \<Rightarrow> bool)
                 \<Rightarrow> compiledRedirect list"

section \<open>RedirectTree\<close>

record RedirectTree =
  basicHost :: "compiledRedirect radix_Tree"
  basic :: "compiledRedirect radix_Tree"
  regexHost :: "regexBucket radix_Tree"
  regex :: "regexBucket radix_Tree"
  regexHostRoot :: "compiledRedirect list"
  regexRoot :: "compiledRedirect list"

definition NewRedirectTreeMatcher :: RedirectTree where
  "NewRedirectTreeMatcher =
     \<lparr>basicHost = radix_New, basic = radix_New, regexHost = radix_New, regex = radix_New,
      regexHostRoot = [], regexRoot = []\<rparr>"

subsection \<open>Literal prefix extraction\<close>

text \<open>
  \<open>extractLiteralPrefix\<close>; \<open>concatLoop\<close> is the \<open>for\<close> loop of its \<open>OpConcat\<close> case, in
  which each \<open>break\<close> ends the loop with what has been written so far.
\<close>

fun extractLiteralPrefix :: "syntax_Regexp \<Rightarrow> string"
  and concatLoop :: "syntax_Regexp list \<Rightarrow> string" where
  "extractLiteralPrefix (Regexp op fl subs rn mi ma cp nm) =
     (case op of
        OpLiteral \<Rightarrow> string_of_runes rn
      | OpConcat \<Rightarrow> concatLoop subs
      | OpCapture \<Rightarrow> (case subs of [] \<Rightarrow> [] | s0 # _ \<Rightarrow> extractLiteralPrefix s0)
      | _ \<Rightarrow> [])"
| "concatLoop [] = []"
| "concatLoop (Regexp op fl ss rn mi ma cp nm # subs) =
     (if op = OpLiteral then string_of_runes rn @ concatLoop subs
      else if op = OpCapture \<and> length ss > 0 then
        (case ss of
           [] \<Rightarrow> []
         | s0 # _ \<Rightarrow>
             (let inner = extractLiteralPrefix s0
              in if inner = [] then [] else inner @ concatLoop subs))
      else [])"

definition extractRegexPrefix :: "stdlib \<Rightarrow> string \<Rightarrow> string" where
  "extractRegexPrefix L pattern =
     (let pattern = strings_TrimPrefix pattern ''^'' in
      case syntax_Parse L pattern syntax_Perl of
        Inl err \<Rightarrow> []
      | Inr re \<Rightarrow> extractLiteralPrefix re)"

subsection \<open>Insert\<close>

text \<open>
  \<open>RedirectTree.Insert\<close> mutates the receiver and returns an error value; the model
  returns the error (\<open>None\<close> is nil) together with the matcher after the call. The
  source picks \<open>tree\<close> and \<open>rootBucket\<close> by the rule type and appends through them;
  \<open>bucketInsert\<close> is that last \<open>if\<close>/\<open>else\<close> on the picked pair (\<open>pfx\<close> is the
  source's \<open>prefix\<close>). Appending to the bucket found under \<open>pfx\<close> goes through a pointer in the source, so the tree then
  holds the longer bucket under the same key.
\<close>

definition bucketInsert ::
  "regexBucket radix_Tree \<times> compiledRedirect list \<Rightarrow> string \<Rightarrow> compiledRedirect
   \<Rightarrow> regexBucket radix_Tree \<times> compiledRedirect list" where
  "bucketInsert tr pfx cr =
     (case tr of (tree, rootBucket) \<Rightarrow>
        if pfx = [] then (tree, rootBucket @ [cr])
        else
          (case radix_Get tree pfx of
             Some bucket \<Rightarrow>
               (radix_Insert tree pfx (bucket\<lparr>redirects := redirects bucket @ [cr]\<rparr>),
                rootBucket)
           | None \<Rightarrow> (radix_Insert tree pfx \<lparr>redirects = [cr]\<rparr>, rootBucket)))"

definition RedirectTree_Insert ::
  "stdlib \<Rightarrow> RedirectTree \<Rightarrow> Redirect \<Rightarrow> error option \<times> RedirectTree" where
  "RedirectTree_Insert L rt r =
     (if Redirect.Type r = RedirectTypeBasicHost then
        (None, rt\<lparr>RedirectTree.basicHost :=
                  radix_Insert (RedirectTree.basicHost rt) (Source r)
                    \<lparr>Redirect = r, regex = None\<rparr>\<rparr>)
      else if Redirect.Type r = RedirectTypeBasic then
        (None, rt\<lparr>RedirectTree.basic :=
                  radix_Insert (RedirectTree.basic rt) (Source r)
                    \<lparr>Redirect = r, regex = None\<rparr>\<rparr>)
      else if Redirect.Type r = RedirectTypeRegexHost \<or> Redirect.Type r = RedirectTypeRegex then
        (case regexp_Compile L (Source r) of
           Inl err \<Rightarrow> (Some err, rt)
         | Inr re \<Rightarrow>
             (let cr = \<lparr>Redirect = r, regex = Some re\<rparr>;
                  pfx = extractRegexPrefix L (Source r)
              in if Redirect.Type r = RedirectTypeRegexHost then
                   (case bucketInsert (RedirectTree.regexHost rt, regexHostRoot rt) pfx cr of
                      (tree, rootBucket) \<Rightarrow>
                        (None, rt\<lparr>RedirectTree.regexHost := tree, regexHostRoot := rootBucket\<rparr>))
                 else
                   (case bucketInsert (RedirectTree.regex rt, regexRoot rt) pfx cr of
                      (tree, rootBucket) \<Rightarrow>
                        (None, rt\<lparr>RedirectTree.regex := tree, regexRoot := rootBucket\<rparr>))))
      else (None, rt))"

subsection \<open>Match\<close>

datatype panic = SliceBoundsOutOfRange | NilPointerDereference

definition minInt :: "int \<Rightarrow> int \<Rightarrow> int" where
  "minInt a b = (if a < b then a else b)"

text \<open>The slice expression \<open>s[:n]\<close>, which panics unless \<open>0 \<le> n \<le> len(s)\<close>.\<close>

definition slice_to :: "string \<Rightarrow> int \<Rightarrow> panic + string" where
  "slice_to s n =
     (if 0 \<le> n \<and> n \<le> int (length s) then Inr (take (nat n) s)
      else Inl SliceBoundsOutOfRange)"

text \<open>
  \<open>resolveTarget\<close>: \<open>resolveLoop matches i\<close> is the loop at the counter value \<open>i\<close>,
  running down to 1. The placeholder of \<open>i\<close> is \<open>$\<close> followed by the character with
  code \<open>'0' + i\<close>. The counter starts at \<open>len(matches) - 1\<close>, so \<open>matches[i]\<close> is always
  within the slice.
\<close>

fun resolveLoop :: "string list \<Rightarrow> nat \<Rightarrow> string \<Rightarrow> string" where
  "resolveLoop matches 0 result = result"
| "resolveLoop matches (Suc i) result =
     resolveLoop matches i
       (strings_ReplaceAll result (''$'' @ string_of_rune (48 + int (Suc i))) (matches ! Suc i))"

definition resolveTarget :: "string \<Rightarrow> string list \<Rightarrow> string" where
  "resolveTarget target matches = resolveLoop matches (length matches - 1) target"

definition sortBySourceLength :: "stdlib \<Rightarrow> compiledRedirect list \<Rightarrow> compiledRedirect list" where
  "sortBySourceLength L candidates =
     sort_Slice L candidates
       (\<lambda>a b. length (Source (Redirect a)) > length (Source (Redirect b)))"

text \<open>
  The \<open>range\<close> loop of \<open>matchRegex\<close> over the sorted candidates. Calling
  \<open>FindStringSubmatch\<close> on a nil \<open>*regexp.Regexp\<close> panics. The no-match result
  \<open>(nil, "")\<close> is \<open>(None, [])\<close>.
\<close>

fun matchLoop :: "compiledRedirect list \<Rightarrow> string \<Rightarrow> panic + (Redirect option \<times> string)" where
  "matchLoop [] input = Inr (None, [])"
| "matchLoop (cr # crs) input =
     (case compiledRedirect.regex cr of
        None \<Rightarrow> Inl NilPointerDereference
      | Some re \<Rightarrow>
          (case re input of
             Some matches \<Rightarrow> Inr (Some (Redirect cr), resolveTarget (Target (Redirect cr)) matches)
           | None \<Rightarrow> matchLoop crs input))"

text \<open>The candidates that \<open>matchRegex\<close> collects before sorting.\<close>

definition collect :: "regexBucket radix_Tree \<Rightarrow> compiledRedirect list \<Rightarrow> string \<Rightarrow> string
                        \<Rightarrow> compiledRedirect list" where
  "collect tree rootBucket first input =
     radix_WalkPrefix tree first
       (\<lambda>pfx val candidates.
          (False, if prefix pfx input then candidates @ redirects val else candidates))
       []
     @ rootBucket"

definition matchRegex ::
  "stdlib \<Rightarrow> regexBucket radix_Tree \<Rightarrow> compiledRedirect list \<Rightarrow> string
   \<Rightarrow> panic + (Redirect option \<times> string)" where
  "matchRegex L tree rootBucket input =
     (case slice_to input (minInt (int (length input)) 1) of
        Inl p \<Rightarrow> Inl p
      | Inr first \<Rightarrow>
          matchLoop (sortBySourceLength L (collect tree rootBucket first input)) input)"

definition RedirectTree_Match ::
  "stdlib \<Rightarrow> RedirectTree \<Rightarrow> string \<Rightarrow> string \<Rightarrow> panic + (Redirect option \<times> string)" where
  "RedirectTree_Match L rt host uri =
     (let hostURI = host @ uri in
      case radix_Get (RedirectTree.basicHost rt) hostURI of
        Some cr \<Rightarrow> Inr (Some (Redirect cr), Target (Redirect cr))
      | None \<Rightarrow>
     (case radix_Get (RedirectTree.basic rt) uri of
        Some cr \<Rightarrow> Inr (Some (Redirect cr), Target (Redirect cr))
      | None \<Rightarrow>
     (case matchRegex L (RedirectTree.regexHost rt) (regexHostRoot rt) hostURI of
        Inl p \<Rightarrow> Inl p
      | Inr (Some r, target) \<Rightarrow> Inr (Some r, target)
      | Inr (None, _) \<Rightarrow>
     (case matchRegex L (RedirectTree.regex rt) (regexRoot rt) uri of
        Inl p \<Rightarrow> Inl p
      | Inr (Some r, target) \<Rightarrow> Inr (Some r, target)
      | Inr (None, _) \<Rightarrow> Inr (None, [])))))"

section \<open>Building a matcher, and the vocabulary of the theorems\<close>

text \<open>
  A matcher is built by calling \<open>Insert\<close> on a fresh instance once per rule.
  \<open>insertAll L rt rs\<close> is the matcher after the calls for the rules \<open>rs\<close> in order,
  whatever error each call returned.
\<close>

definition insertAll :: "stdlib \<Rightarrow> RedirectTree \<Rightarrow> Redirect list \<Rightarrow> RedirectTree" where
  "insertAll L rt rs = foldl (\<lambda>rt r. snd (RedirectTree_Insert L rt r)) rt rs"

text \<open>
  The submatches of a compiled redirect on an input, and the first element of a candidate
  list that matches, with its submatches.
\<close>

definition submatch :: "compiledRedirect \<Rightarrow> string \<Rightarrow> string list option" where
  "submatch cr input =
     (case compiledRedirect.regex cr of None \<Rightarrow> None | Some re \<Rightarrow> re input)"

fun first_match :: "compiledRedirect list \<Rightarrow> string \<Rightarrow> (compiledRedirect \<times> string list) option" where
  "first_match [] input = None"
| "first_match (cr # crs) input =
     (case submatch cr input of Some ms \<Rightarrow> Some (cr, ms) | None \<Rightarrow> first_match crs input)"

text \<open>The candidate list of a regex tier for an input, as \<open>matchRegex\<close> collects it.\<close>

definition candidates :: "regexBucket radix_Tree \<Rightarrow> compiledRedirect list \<Rightarrow> string
                           \<Rightarrow> compiledRedirect list" where
  "candidates tree rootBucket input = collect tree rootBucket (take 1 input) input"

text \<open>The result that \<open>matchRegex\<close> and \<open>Match\<close> return for a first match, if any.\<close>

definition answer :: "(compiledRedirect \<times> string list) option \<Rightarrow> Redirect option \<times> string" where
  "answer m =
     (case m of
        None \<Rightarrow> (None, [])
      | Some (cr, ms) \<Rightarrow> (Some (Redirect cr), resolveTarget (Target (Redirect cr)) ms))"

text \<open>
  What the library promises of \<open>sort.Slice\<close> with the comparison of
  \<open>sortBySourceLength\<close>: the result is a rearrangement of the slice in which no element
  is followed by one with a longer \<open>Source\<close>. The order of elements with equally long
  sources is not promised (the sort is not stable).
\<close>

definition sort_ok :: "stdlib \<Rightarrow> bool" where
  "sort_ok L \<longleftrightarrow>
     (\<forall>cs. mset (sortBySourceLength L cs) = mset cs \<and>
           sorted_wrt (\<lambda>a b. length (Source (Redirect a)) \<ge> length (Source (Redirect b)))
             (sortBySourceLength L cs))"

text \<open>
  The insertion sort that \<open>sort.Slice\<close> runs on short slices (at most 12 elements since
  Go 1.19): element \<open>i\<close> is swapped towards the front while the comparison \<open>lt\<close> (the
  source's \<open>less\<close>) puts it before its left neighbour. \<open>sift\<close> takes the sorted part
  before \<open>i\<close> in reverse, nearest neighbour first. It serves as the \<open>sort.Slice\<close> of the
  sample library below.
\<close>

fun sift :: "('a \<Rightarrow> 'a \<Rightarrow> bool) \<Rightarrow> 'a \<Rightarrow> 'a list \<Rightarrow> 'a list" where
  "sift lt x [] = [x]"
| "sift lt x (y # ys) = (if lt x y then y # sift lt x ys else x # y # ys)"

fun insertionSortFrom :: "('a \<Rightarrow> 'a \<Rightarrow> bool) \<Rightarrow> 'a list \<Rightarrow> 'a list \<Rightarrow> 'a list" where
  "insertionSortFrom lt before [] = rev before"
| "insertionSortFrom lt before (x # xs) = insertionSortFrom lt (sift lt x before) xs"

definition insertionSort :: "'a list \<Rightarrow> ('a \<Rightarrow> 'a \<Rightarrow> bool) \<Rightarrow> 'a list" where
  "insertionSort xs lt = insertionSortFrom lt [] xs"

text \<open>
  The state invariant of a built matcher that \<open>Match\<close> relies on: no bucket is stored
  under the empty prefix, and every redirect of a bucket or of a root list carries its
  compiled pattern.
\<close>

definition compiled :: "compiledRedirect list \<Rightarrow> bool" where
  "compiled crs \<longleftrightarrow> list_all (\<lambda>cr. compiledRedirect.regex cr \<noteq> None) crs"

definition buckets_ok :: "regexBucket radix_Tree \<Rightarrow> bool" where
  "buckets_ok t \<longleftrightarrow> list_all (\<lambda>(k, b). k \<noteq> [] \<and> compiled (redirects b)) t"

definition built_ok :: "RedirectTree \<Rightarrow> bool" where
  "built_ok rt \<longleftrightarrow>
     buckets_ok (RedirectTree.regexHost rt) \<and> buckets_ok (RedirectTree.regex rt) \<and>
     compiled (regexHostRoot rt) \<and> compiled (regexRoot rt)"

section \<open>Sample library values\<close>

text \<open>
  The theorems below hold for every library \<open>L\<close>. To instantiate them on concrete
  inputs, \<open>sample_lib\<close> gives the results of the Go library on a handful of patterns:
  \<^item> \<open>(\<close> does not compile (missing closing parenthesis);
  \<^item> \<open>^/api\<close> matches the inputs that start with \<open>/api\<close>, and \<open>/api\<close> parses to a literal;
  \<^item> \<open>v2/items\<close> has no anchor and matches the inputs that contain it, and parses to a
    literal;
  \<^item> \<open>^.*\.xml$\<close> matches the inputs without a newline that end in \<open>.xml\<close>, and
    \<open>.*\.xml$\<close> parses to the concatenation of a star, the literal \<open>.xml\<close> and the end
    anchor;
  \<^item> \<open>^/old/(foo)/.*\<close> matches the inputs that start with \<open>/old/foo/\<close>, up to the first
    newline, with the group \<open>foo\<close>;
  \<^item> \<open>^/x(ab*)c\<close> matches the inputs that start with \<open>/xa\<close>, any number of \<open>b\<close> and a
    \<open>c\<close>, with the group \<open>a\<close> and its \<open>b\<close>s.
  The submatches of the first three patterns, which have no capture group, are the matched
  text alone. Any other pattern is reported as an error by \<open>sample_lib\<close>; no theorem depends
  on that. Its \<open>sort.Slice\<close> is the insertion sort.
\<close>

definition literal :: "string \<Rightarrow> syntax_Regexp" where
  "literal s = Regexp OpLiteral syntax_Perl [] (map of_char s) 0 0 0 []"

definition xml_pattern :: string where
  "xml_pattern = ''^.*'' @ [CHR 0x5C] @ ''.xml$''"

text \<open>
  Two parse trees: \<open>tree_ab_c\<close> is the tree of \<open>/x(ab*)c\<close>, a concatenation of the literal
  \<open>/x\<close>, a capture group around \<open>a\<close> followed by \<open>b*\<close>, and the literal \<open>c\<close>;
  \<open>tree_old\<close> is the tree of \<open>/old/(foo)/.*\<close>.
\<close>

definition tree_ab_c :: syntax_Regexp where
  "tree_ab_c =
     Regexp OpConcat 0
       [literal ''/x'',
        Regexp OpCapture syntax_Perl
          [Regexp OpConcat 0
             [literal ''a'', Regexp OpStar syntax_Perl [literal ''b''] [] 0 0 0 []]
             [] 0 0 0 []]
          [] 0 0 1 [],
        literal ''c'']
       [] 0 0 0 []"

definition tree_old :: syntax_Regexp where
  "tree_old =
     Regexp OpConcat 0
       [literal ''/old/'',
        Regexp OpCapture syntax_Perl [literal ''foo''] [] 0 0 1 [],
        literal ''/'',
        Regexp OpStar syntax_Perl [Regexp OpAnyCharNotNL syntax_Perl [] [] 0 0 0 []] [] 0 0 0 []]
       [] 0 0 0 []"

definition match_old :: regexp_Regexp where
  "match_old s =
     (if prefix ''/old/foo/'' s
        then Some [''/old/foo/'' @ takeWhile (\<lambda>c. c \<noteq> CHR 0x0A) (drop 9 s), ''foo'']
      else None)"

definition match_ab_c :: regexp_Regexp where
  "match_ab_c s =
     (if prefix ''/xa'' s then
        (let bs = takeWhile (\<lambda>c. c = CHR ''b'') (drop 3 s)
         in if prefix ''c'' (drop (3 + length bs) s) then Some [''/xa'' @ bs @ ''c'', ''a'' @ bs]
            else None)
      else None)"

definition match_api :: regexp_Regexp where
  "match_api s = (if prefix ''/api'' s then Some [''/api''] else None)"

definition match_items :: regexp_Regexp where
  "match_items s = (if sublist ''v2/items'' s then Some [''v2/items''] else None)"

definition match_xml :: regexp_Regexp where
  "match_xml s = (if suffix ''.xml'' s \<and> CHR 0x0A \<notin> set s then Some [s] else None)"

definition sample_Compile :: "string \<Rightarrow> error + regexp_Regexp" where
  "sample_Compile src =
     (if src = ''^/api'' then Inr match_api
      else if src = ''v2/items'' then Inr match_items
      else if src = xml_pattern then Inr match_xml
      else if src = ''^/old/(foo)/.*'' then Inr match_old
      else if src = ''^/x(ab*)c'' then Inr match_ab_c
      else if src = ''('' then Inl ''error parsing regexp: missing closing )''
      else Inl ''not a sample pattern'')"

definition sample_Parse :: "string \<Rightarrow> nat \<Rightarrow> error + syntax_Regexp" where
  "sample_Parse pattern flags =
     (if pattern = ''/api'' \<or> pattern = ''v2/items'' then Inr (literal pattern)
      else if pattern = drop 1 xml_pattern
        then Inr (Regexp OpConcat 0
                    [Regexp OpStar flags [Regexp OpAnyCharNotNL flags [] [] 0 0 0 []] [] 0 0 0 [],
                     literal ''.xml'',
                     Regexp OpEndText (flags + 256) [] [] 0 0 0 []]
                    [] 0 0 0 [])
      else if pattern = ''/old/(foo)/.*'' then Inr tree_old
      else if pattern = ''/x(ab*)c'' then Inr tree_ab_c
      else if pattern = ''('' then Inl ''missing closing )''
      else Inl ''not a sample pattern'')"

definition sample_lib :: stdlib where
  "sample_lib =
     \<lparr>regexp_Compile = sample_Compile, syntax_Parse = sample_Parse, sort_Slice = insertionSort\<rparr>"

text \<open>Rules and a rule list used to instantiate the theorems.\<close>

definition rule_host :: Redirect where
  "rule_host = \<lparr>Redirect.Type = ''BASIC_HOST'', Source = ''example.com/a'', Target = ''/host'',
                 Status = ''MOVED_PERMANENT''\<rparr>"

definition rule_basic :: Redirect where
  "rule_basic = \<lparr>Redirect.Type = ''BASIC'', Source = ''/b'', Target = ''/basic'', Status = ''FOUND''\<rparr>"

definition rule_api :: Redirect where
  "rule_api = \<lparr>Redirect.Type = ''REGEX'', Source = ''^/api'', Target = ''/v'', Status = ''FOUND''\<rparr>"

definition rule_items :: Redirect where
  "rule_items = \<lparr>Redirect.Type = ''REGEX'', Source = ''v2/items'', Target = ''/w'', Status = ''FOUND''\<rparr>"

definition rule_xml :: Redirect where
  "rule_xml = \<lparr>Redirect.Type = ''REGEX'', Source = xml_pattern, Target = ''/sitemap'',
                Status = ''FOUND''\<rparr>"

definition rule_bad :: Redirect where
  "rule_bad = \<lparr>Redirect.Type = ''REGEX_HOST'', Source = ''('', Target = ''/never'', Status = ''''\<rparr>"

definition sample_rules :: "Redirect list" where
  "sample_rules = [rule_host, rule_basic, rule_bad, rule_api, rule_xml]"

definition rule_xml_host :: Redirect where
  "rule_xml_host = \<lparr>Redirect.Type = ''REGEX_HOST'', Source = xml_pattern, Target = ''/hostmap'',
                     Status = ''FOUND''\<rparr>"

text \<open>Rules that share a source, for the order of insertion.\<close>

definition rule_dup1 :: Redirect where
  "rule_dup1 = \<lparr>Redirect.Type = ''BASIC'', Source = ''/dup'', Target = ''/first'', Status = ''FOUND''\<rparr>"

definition rule_dup2 :: Redirect where
  "rule_dup2 = \<lparr>Redirect.Type = ''BASIC'', Source = ''/dup'', Target = ''/second'', Status = ''FOUND''\<rparr>"

definition rule_api2 :: Redirect where
  "rule_api2 = \<lparr>Redirect.Type = ''REGEX'', Source = ''^/api'', Target = ''/other'', Status = ''FOUND''\<rparr>"

text \<open>Two rules with a capture group.\<close>

definition rule_old :: Redirect where
  "rule_old = \<lparr>Redirect.Type = ''REGEX'', Source = ''^/old/(foo)/.*'', Target = ''/new/$1'',
                Status = ''MOVED_PERMANENT''\<rparr>"

definition rule_ab_c :: Redirect where
  "rule_ab_c = \<lparr>Redirect.Type = ''REGEX'', Source = ''^/x(ab*)c'', Target = ''/y/$1'',
                 Status = ''FOUND''\<rparr>"


section \<open>Placeholder substitution as the specification words it\<close>

text \<open>
  Written from the specification, for comparison with \<open>resolveTarget\<close>: the template is
  read once from left to right; a \<open>$\<close> followed by a digit \<open>1\<close> to \<open>9\<close> that numbers a
  group of the match (group 0 is the whole match) is replaced by the text of that group;
  every other character is kept, and so is a token whose number exceeds the number of
  groups. \<open>substitute_above lo\<close> replaces only the tokens with a number above \<open>lo\<close>;
  \<open>spec_substitute\<close> replaces all of them.
\<close>

definition token_index :: "char \<Rightarrow> nat" where
  "token_index d = of_char d - 48"

definition is_token :: "nat \<Rightarrow> string list \<Rightarrow> char \<Rightarrow> bool" where
  "is_token lo ms d \<longleftrightarrow>
     (49::nat) \<le> of_char d \<and> (of_char d :: nat) \<le> 57 \<and>
     lo < token_index d \<and> token_index d < length ms"

fun substitute_above :: "nat \<Rightarrow> string list \<Rightarrow> string \<Rightarrow> string" where
  "substitute_above lo ms [] = []"
| "substitute_above lo ms [c] = [c]"
| "substitute_above lo ms (c # d # t) =
     (if c = CHR ''$'' \<and> is_token lo ms d then ms ! token_index d @ substitute_above lo ms t
      else c # substitute_above lo ms (d # t))"

definition spec_substitute :: "string list \<Rightarrow> string \<Rightarrow> string" where
  "spec_substitute ms target = substitute_above 0 ms target"

section \<open>The contents of a regex tier\<close>

text \<open>
  For comparing matchers built from the same rules in different orders: the prefix tree
  keeps its keys in strictly ascending order; \<open>entries\<close> is the multiset of the pairs of
  a key and a redirect stored under it, the root bucket counting as the empty key;
  \<open>mk_compiled\<close> is the compiled redirect that \<open>Insert\<close> stores for a regex rule, and
  \<open>regex_rules\<close> are the rules of a regex type that compile.
\<close>

definition keys_sorted :: "'v radix_Tree \<Rightarrow> bool" where
  "keys_sorted t \<longleftrightarrow> sorted_wrt (<) (map fst t)"

definition flat :: "regexBucket radix_Tree \<Rightarrow> (string \<times> compiledRedirect) list" where
  "flat t = concat (map (\<lambda>(k, b). map (Pair k) (redirects b)) t)"

definition entries ::
  "regexBucket radix_Tree \<Rightarrow> compiledRedirect list \<Rightarrow> (string \<times> compiledRedirect) multiset" where
  "entries tree rootBucket = mset (flat tree) + mset (map (Pair []) rootBucket)"

definition mk_compiled :: "stdlib \<Rightarrow> Redirect \<Rightarrow> compiledRedirect" where
  "mk_compiled L r =
     \<lparr>Redirect = r,
      regex = (case regexp_Compile L (Source r) of Inl err \<Rightarrow> None | Inr re \<Rightarrow> Some re)\<rparr>"

definition regex_rules :: "stdlib \<Rightarrow> RedirectType \<Rightarrow> Redirect list \<Rightarrow> Redirect list" where
  "regex_rules L ty rs =
     filter (\<lambda>r. Redirect.Type r = ty \<and> \<not> isl (regexp_Compile L (Source r))) rs"

definition exact_rules :: "RedirectType \<Rightarrow> Redirect list \<Rightarrow> Redirect list" where
  "exact_rules ty rs = filter (\<lambda>r. Redirect.Type r = ty) rs"


section \<open>What a parse tree matches\<close>

text \<open>
  The meaning of the parse tree, after the documentation of \<open>regexp/syntax\<close>:
  \<open>rmatch X s re i j\<close> says that \<open>re\<close> can match the bytes of \<open>s\<close> from position \<open>i\<close> up
  to position \<open>j\<close>, and \<open>rmatch_seq\<close> that a list of trees can match one after the other.
  A compiled pattern finds a match in \<open>s\<close> exactly when its tree has such a span. The
  operators whose meaning depends on Unicode tables, on the byte before or after the
  position, or on repetition counts (character classes, the two any-character operators,
  line anchors, word boundaries, counted repetition, and case-folded literals, which carry
  the flag bit 1) are left to the parameter \<open>X\<close>: the theorems hold whatever they match.
  \<open>OpNoMatch\<close> matches nothing.
\<close>

definition left_open :: "syntax_Op \<Rightarrow> nat \<Rightarrow> bool" where
  "left_open op fl \<longleftrightarrow>
     op \<in> {OpCharClass, OpAnyCharNotNL, OpAnyChar, OpBeginLine, OpEndLine, OpWordBoundary,
           OpNoWordBoundary, OpRepeat} \<or> (op = OpLiteral \<and> odd fl)"

inductive rmatch ::
    "(syntax_Regexp \<Rightarrow> string \<Rightarrow> nat \<Rightarrow> nat \<Rightarrow> bool) \<Rightarrow> string \<Rightarrow> syntax_Regexp \<Rightarrow> nat \<Rightarrow> nat \<Rightarrow> bool"
  and rmatch_seq ::
    "(syntax_Regexp \<Rightarrow> string \<Rightarrow> nat \<Rightarrow> nat \<Rightarrow> bool) \<Rightarrow> string \<Rightarrow> syntax_Regexp list \<Rightarrow> nat \<Rightarrow> nat \<Rightarrow> bool"
  for X :: "syntax_Regexp \<Rightarrow> string \<Rightarrow> nat \<Rightarrow> nat \<Rightarrow> bool" and s :: string where
  m_empty: "i \<le> length s \<Longrightarrow> rmatch X s (Regexp OpEmptyMatch fl subs rn mi ma cp nm) i i"
| m_literal: "\<not> odd fl \<Longrightarrow> i \<le> length s \<Longrightarrow>
     take (length (string_of_runes rn)) (drop i s) = string_of_runes rn \<Longrightarrow>
     rmatch X s (Regexp OpLiteral fl subs rn mi ma cp nm) i (i + length (string_of_runes rn))"
| m_begin: "rmatch X s (Regexp OpBeginText fl subs rn mi ma cp nm) 0 0"
| m_end: "rmatch X s (Regexp OpEndText fl subs rn mi ma cp nm) (length s) (length s)"
| m_capture: "rmatch X s r i j \<Longrightarrow> rmatch X s (Regexp OpCapture fl [r] rn mi ma cp nm) i j"
| m_concat: "rmatch_seq X s subs i j \<Longrightarrow> rmatch X s (Regexp OpConcat fl subs rn mi ma cp nm) i j"
| m_alternate: "r \<in> set subs \<Longrightarrow> rmatch X s r i j \<Longrightarrow>
     rmatch X s (Regexp OpAlternate fl subs rn mi ma cp nm) i j"
| m_star_none: "i \<le> length s \<Longrightarrow> rmatch X s (Regexp OpStar fl [r] rn mi ma cp nm) i i"
| m_star_more: "rmatch X s r i k \<Longrightarrow> rmatch X s (Regexp OpStar fl [r] rn mi ma cp nm) k j \<Longrightarrow>
     rmatch X s (Regexp OpStar fl [r] rn mi ma cp nm) i j"
| m_plus: "rmatch X s r i k \<Longrightarrow> rmatch X s (Regexp OpStar fl [r] rn mi ma cp nm) k j \<Longrightarrow>
     rmatch X s (Regexp OpPlus fl [r] rn mi ma cp nm) i j"
| m_quest_none: "i \<le> length s \<Longrightarrow> rmatch X s (Regexp OpQuest fl [r] rn mi ma cp nm) i i"
| m_quest_one: "rmatch X s r i j \<Longrightarrow> rmatch X s (Regexp OpQuest fl [r] rn mi ma cp nm) i j"
| m_open: "left_open op fl \<Longrightarrow> X (Regexp op fl subs rn mi ma cp nm) s i j \<Longrightarrow>
     rmatch X s (Regexp op fl subs rn mi ma cp nm) i j"
| seq_nil: "i \<le> length s \<Longrightarrow> rmatch_seq X s [] i i"
| seq_cons: "rmatch X s r i k \<Longrightarrow> rmatch_seq X s rs k j \<Longrightarrow> rmatch_seq X s (r # rs) i j"

text \<open>
  Where the walk of \<open>extractLiteralPrefix\<close> is on safe ground. \<open>exact re\<close>: the walk
  reads all of \<open>re\<close>, which is built from case-sensitive literals and from capture groups
  around such trees, so \<open>re\<close> matches its extracted text and nothing else. \<open>guarded re\<close>:
  every literal the walk reads is case-sensitive, and every capture group that the loop
  over a concatenation passes with a non-empty prefix is \<open>exact\<close>.
\<close>

fun exact :: "syntax_Regexp \<Rightarrow> bool" and exact_seq :: "syntax_Regexp list \<Rightarrow> bool" where
  "exact (Regexp op fl subs rn mi ma cp nm) =
     (case op of
        OpLiteral \<Rightarrow> \<not> odd fl
      | OpConcat \<Rightarrow> exact_seq subs
      | OpCapture \<Rightarrow> (case subs of [r] \<Rightarrow> exact r | _ \<Rightarrow> False)
      | _ \<Rightarrow> False)"
| "exact_seq [] = True"
| "exact_seq (Regexp op fl ss rn mi ma cp nm # subs) =
     (if op = OpLiteral then \<not> odd fl \<and> exact_seq subs
      else if op = OpCapture then
        (case ss of [r] \<Rightarrow> exact r \<and> extractLiteralPrefix r \<noteq> [] \<and> exact_seq subs | _ \<Rightarrow> False)
      else False)"

fun guarded :: "syntax_Regexp \<Rightarrow> bool" and guarded_seq :: "syntax_Regexp list \<Rightarrow> bool" where
  "guarded (Regexp op fl subs rn mi ma cp nm) =
     (case op of
        OpLiteral \<Rightarrow> \<not> odd fl
      | OpConcat \<Rightarrow> guarded_seq subs
      | OpCapture \<Rightarrow> (case subs of [] \<Rightarrow> True | [r] \<Rightarrow> guarded r | _ \<Rightarrow> False)
      | _ \<Rightarrow> True)"
| "guarded_seq [] = True"
| "guarded_seq (Regexp op fl ss rn mi ma cp nm # subs) =
     (if op = OpLiteral then \<not> odd fl \<and> guarded_seq subs
      else if op = OpCapture then
        (case ss of
           [] \<Rightarrow> True
         | [r] \<Rightarrow> extractLiteralPrefix r = [] \<or> (exact r \<and> guarded_seq subs)
         | _ \<Rightarrow> False)
      else True)"

section \<open>The prefix tree: lookup after insertion\<close>

lemma radix_Get_Insert:
  "radix_Get (radix_Insert t k v) k' = (if k' = k then Some v else radix_Get t k')"
  by (induction t) (auto simp: radix_Get_def)

section \<open>Candidate collection, the state invariant and the matching loop\<close>

lemma walk_collect:
  "walk es (\<lambda>pfx val cs. (False, if prefix pfx input then cs @ redirects val else cs)) acc =
     acc @ concat (map (redirects \<circ> snd) (filter (\<lambda>(k, b). prefix k input) es))"
  by (induction es arbitrary: acc) auto

lemma collect_eq:
  "collect tree root first input =
     concat (map (redirects \<circ> snd) (filter (\<lambda>(k, b). prefix first k \<and> prefix k input) tree)) @ root"
proof -
  have "filter (\<lambda>(k, b). prefix k input) (filter (\<lambda>(k, v). prefix first k) tree) =
        filter (\<lambda>(k, b). prefix first k \<and> prefix k input) tree"
    by (induction tree) auto
  then show ?thesis
    by (simp add: collect_def radix_WalkPrefix_def walk_collect)
qed

lemma first_char_prefix:
  "prefix (take 1 input) k \<and> prefix k input \<longleftrightarrow> prefix k input \<and> (k = [] \<longrightarrow> input = [])"
  by (cases input; cases k) auto

lemma candidates_eq:
  "candidates tree root input =
     concat (map (redirects \<circ> snd)
       (filter (\<lambda>(k, b). prefix k input \<and> (k = [] \<longrightarrow> input = [])) tree)) @ root"
proof -
  have "(\<lambda>(k, b :: regexBucket). prefix (take 1 input) k \<and> prefix k input) =
        (\<lambda>(k, b). prefix k input \<and> (k = [] \<longrightarrow> input = []))"
    using first_char_prefix by (intro ext) (simp only: split_def)
  then show ?thesis
    by (simp add: candidates_def collect_eq)
qed

lemma set_radix_Insert: "set (radix_Insert t k v) \<subseteq> insert (k, v) (set t)"
  by (induction t) (auto split: if_splits)

lemma radix_Get_mem: "radix_Get t k = Some v \<Longrightarrow> (k, v) \<in> set t"
  by (simp add: radix_Get_def map_of_SomeD)

lemma buckets_ok_Insert:
  "buckets_ok t \<Longrightarrow> k \<noteq> [] \<Longrightarrow> compiled (redirects b) \<Longrightarrow> buckets_ok (radix_Insert t k b)"
  using set_radix_Insert[of t k b] by (auto simp: buckets_ok_def list_all_iff)

lemma bucketInsert_ok:
  assumes "buckets_ok tree" "compiled root" "compiledRedirect.regex cr \<noteq> None"
    and "bucketInsert (tree, root) pfx cr = (tree', root')"
  shows "buckets_ok tree' \<and> compiled root'"
proof (cases "pfx = []")
  case True
  with assms show ?thesis by (auto simp: bucketInsert_def compiled_def)
next
  case False
  show ?thesis
  proof (cases "radix_Get tree pfx")
    case None
    with False assms show ?thesis
      by (auto simp: bucketInsert_def compiled_def intro!: buckets_ok_Insert)
  next
    case (Some b)
    then have "compiled (redirects b)"
      using assms(1) radix_Get_mem[OF Some] by (auto simp: buckets_ok_def list_all_iff)
    with Some False assms show ?thesis
      by (auto simp: bucketInsert_def compiled_def intro!: buckets_ok_Insert)
  qed
qed

lemma Insert_ok: "built_ok rt \<Longrightarrow> built_ok (snd (RedirectTree_Insert L rt r))"
  by (auto simp: RedirectTree_Insert_def built_ok_def Let_def
      split: sum.splits prod.splits dest!: bucketInsert_ok[rotated 3])

lemma insertAll_ok: "built_ok rt \<Longrightarrow> built_ok (insertAll L rt rs)"
  unfolding insertAll_def by (induction rs arbitrary: rt) (auto simp: Insert_ok)

lemma New_ok: "built_ok NewRedirectTreeMatcher"
  by (simp add: built_ok_def NewRedirectTreeMatcher_def buckets_ok_def compiled_def radix_New_def)

lemma built_ok_insertAll_New: "built_ok (insertAll L NewRedirectTreeMatcher rs)"
  by (simp add: insertAll_ok New_ok)

lemma matchLoop_first_match:
  "compiled cs \<Longrightarrow> matchLoop cs input = Inr (answer (first_match cs input))"
  by (induction cs) (auto simp: compiled_def submatch_def answer_def split: option.splits)

lemma slice_first: "slice_to input (minInt (int (length input)) 1) = Inr (take 1 input)"
  by (cases input) (auto simp: slice_to_def minInt_def)

lemma compiled_candidates:
  "buckets_ok tree \<Longrightarrow> compiled root \<Longrightarrow> compiled (candidates tree root input)"
  by (auto simp: candidates_eq compiled_def buckets_ok_def list_all_iff)

lemma compiled_sorted:
  "sort_ok L \<Longrightarrow> compiled cs \<Longrightarrow> compiled (sortBySourceLength L cs)"
proof -
  assume "sort_ok L" "compiled cs"
  then have "set (sortBySourceLength L cs) = set cs"
    unfolding sort_ok_def by (metis mset_eq_setD)
  with \<open>compiled cs\<close> show ?thesis by (simp add: compiled_def list_all_iff)
qed

lemma matchRegex_eq:
  assumes "sort_ok L" "buckets_ok tree" "compiled root"
  shows "matchRegex L tree root input =
         Inr (answer (first_match (sortBySourceLength L (candidates tree root input)) input))"
proof -
  have "compiled (sortBySourceLength L (candidates tree root input))"
    using assms by (simp add: compiled_sorted compiled_candidates)
  then show ?thesis
    unfolding matchRegex_def slice_first candidates_def
    by (simp add: matchLoop_first_match)
qed

lemma answer_None_iff: "fst (answer m) = None \<longleftrightarrow> m = None"
  by (auto simp: answer_def split: option.splits)

section \<open>Status codes\<close>

text \<open>
  C8. \<open>HTTPCode\<close> is 301 for MOVED_PERMANENT, 307 for TEMPORARY_REDIRECT, 308 for
  PERMANENT_REDIRECT, and 302 for every other status: FOUND, the empty status and any
  unknown string.
\<close>

theorem HTTPCode_exhaustive:
  "HTTPCode r =
     (if Status r = ''MOVED_PERMANENT'' then 301
      else if Status r = ''TEMPORARY_REDIRECT'' then 307
      else if Status r = ''PERMANENT_REDIRECT'' then 308
      else 302)"
  by (simp add: HTTPCode_def RedirectStatusMovedPermanent_def RedirectStatusFound_def
      RedirectStatusTemporary_def RedirectStatusPermanent_def)

section \<open>The page matcher\<close>

text \<open>
  C9. \<open>PageTree.Match\<close> returns the page under \<open>host + uri\<close> in the BASIC_HOST index if
  there is one, otherwise the page under \<open>uri\<close> in the BASIC index, otherwise nil; nothing
  else is consulted. \<open>PageTree.Insert\<close> makes the page the entry of its \<open>Path\<close> in the
  BASIC_HOST index exactly when its type is BASIC_HOST, in the BASIC index exactly when its
  type is BASIC, and leaves every other entry of both indexes as it was.
\<close>

theorem PageTree_Match_tiers:
  "PageTree_Match pt host uri =
     (case radix_Get (PageTree.basicHost pt) (host @ uri) of
        Some p \<Rightarrow> Some p
      | None \<Rightarrow> radix_Get (PageTree.basic pt) uri)
   \<and> radix_Get (PageTree.basicHost (PageTree_Insert pt p)) k =
       (if Page.Type p = ''BASIC_HOST'' \<and> k = Path p then Some p
        else radix_Get (PageTree.basicHost pt) k)
   \<and> radix_Get (PageTree.basic (PageTree_Insert pt p)) k =
       (if Page.Type p = ''BASIC'' \<and> k = Path p then Some p
        else radix_Get (PageTree.basic pt) k)"
  by (auto simp: PageTree_Match_def PageTree_Insert_def radix_Get_Insert PageTypeBasic_def
      PageTypeBasicHost_def split: option.splits)

section \<open>The insertion sort meets the contract of the sort\<close>

lemma mset_sift: "mset (sift lt x ys) = add_mset x (mset ys)"
  by (induction ys) auto

lemma set_sift: "set (sift lt x ys) = insert x (set ys)"
  by (induction ys) auto

lemma sorted_sift:
  "sorted_wrt (\<lambda>a b. f a \<le> (f b :: nat)) ys \<Longrightarrow>
   sorted_wrt (\<lambda>a b. f a \<le> f b) (sift (\<lambda>a b. f a > f b) x ys)"
  by (induction ys) (auto simp: set_sift)

lemma mset_insertionSortFrom:
  "mset (insertionSortFrom lt before xs) = mset before + mset xs"
  by (induction xs arbitrary: before) (auto simp: mset_sift)

lemma sorted_insertionSortFrom:
  "sorted_wrt (\<lambda>a b. f a \<le> (f b :: nat)) before \<Longrightarrow>
   sorted_wrt (\<lambda>a b. f a \<ge> f b) (insertionSortFrom (\<lambda>a b. f a > f b) before xs)"
  by (induction xs arbitrary: before) (auto simp: sorted_sift sorted_wrt_rev)

lemma sort_ok_sample: "sort_ok sample_lib"
proof -
  have "sorted_wrt (\<lambda>a b. length (Source (Redirect a)) \<ge> length (Source (Redirect b)))
          (insertionSortFrom (\<lambda>a b. length (Source (Redirect a)) > length (Source (Redirect b)))
             [] cs)" for cs :: "compiledRedirect list"
    using sorted_insertionSortFrom[of "\<lambda>a. length (Source (Redirect a))" "[]" cs] by simp
  then show ?thesis
    unfolding sort_ok_def sortBySourceLength_def sample_lib_def
    by (simp add: insertionSort_def mset_insertionSortFrom)
qed

lemma first_match_None_iff:
  "first_match cs input = None \<longleftrightarrow> list_all (\<lambda>cr. submatch cr input = None) cs"
  by (induction cs) (auto split: option.splits)

lemma Match_eq:
  assumes "sort_ok L" "built_ok rt"
  shows "RedirectTree_Match L rt host uri =
    Inr (case radix_Get (RedirectTree.basicHost rt) (host @ uri) of
           Some cr \<Rightarrow> (Some (Redirect cr), Target (Redirect cr))
         | None \<Rightarrow>
        (case radix_Get (RedirectTree.basic rt) uri of
           Some cr \<Rightarrow> (Some (Redirect cr), Target (Redirect cr))
         | None \<Rightarrow>
        (case first_match (sortBySourceLength L
                (candidates (RedirectTree.regexHost rt) (regexHostRoot rt) (host @ uri)))
                (host @ uri) of
           Some (cr, ms) \<Rightarrow> (Some (Redirect cr), resolveTarget (Target (Redirect cr)) ms)
         | None \<Rightarrow>
        (case first_match (sortBySourceLength L
                (candidates (RedirectTree.regex rt) (regexRoot rt) uri)) uri of
           Some (cr, ms) \<Rightarrow> (Some (Redirect cr), resolveTarget (Target (Redirect cr)) ms)
         | None \<Rightarrow> (None, [])))))"
proof -
  have h: "matchRegex L (RedirectTree.regexHost rt) (regexHostRoot rt) (host @ uri) =
        Inr (answer (first_match (sortBySourceLength L
          (candidates (RedirectTree.regexHost rt) (regexHostRoot rt) (host @ uri))) (host @ uri)))"
    using assms by (simp add: matchRegex_eq built_ok_def)
  have p: "matchRegex L (RedirectTree.regex rt) (regexRoot rt) uri =
        Inr (answer (first_match (sortBySourceLength L
          (candidates (RedirectTree.regex rt) (regexRoot rt) uri)) uri))"
    using assms by (simp add: matchRegex_eq built_ok_def)
  show ?thesis
    unfolding RedirectTree_Match_def Let_def h p
    by (simp add: answer_def split: option.splits)
qed

section \<open>The redirect matcher\<close>

text \<open>
  C1. For every matcher built by \<open>Insert\<close> calls and every host and uri, \<open>Match\<close>
  returns, in this order of priority: the entry of the BASIC_HOST index under
  \<open>host + uri\<close> with its literal target; else the entry of the BASIC index under \<open>uri\<close>
  with its literal target; else the first of the sorted regex-host candidates that matches
  \<open>host + uri\<close>, with the substituted target; else the first of the sorted path-only
  regex candidates that matches \<open>uri\<close>, with the substituted target; else the no-match
  result \<open>(nil, "")\<close>. The result is always a value (\<open>Inr\<close>): \<open>Match\<close> never panics.
  The sort is assumed to meet the contract of \<open>sort.Slice\<close>.
\<close>

theorem Match_tiers:
  fixes L :: stdlib and rs :: "Redirect list"
  defines "rt \<equiv> insertAll L NewRedirectTreeMatcher rs"
  assumes ok: "sort_ok L"
  shows "RedirectTree_Match L rt host uri =
    Inr (case radix_Get (RedirectTree.basicHost rt) (host @ uri) of
           Some cr \<Rightarrow> (Some (Redirect cr), Target (Redirect cr))
         | None \<Rightarrow>
        (case radix_Get (RedirectTree.basic rt) uri of
           Some cr \<Rightarrow> (Some (Redirect cr), Target (Redirect cr))
         | None \<Rightarrow>
        (case first_match (sortBySourceLength L
                (candidates (RedirectTree.regexHost rt) (regexHostRoot rt) (host @ uri)))
                (host @ uri) of
           Some (cr, ms) \<Rightarrow> (Some (Redirect cr), resolveTarget (Target (Redirect cr)) ms)
         | None \<Rightarrow>
        (case first_match (sortBySourceLength L
                (candidates (RedirectTree.regex rt) (regexRoot rt) uri)) uri of
           Some (cr, ms) \<Rightarrow> (Some (Redirect cr), resolveTarget (Target (Redirect cr)) ms)
         | None \<Rightarrow> (None, [])))))"
  unfolding rt_def using ok built_ok_insertAll_New by (rule Match_eq)

theorem Match_tiers_witness:
  "RedirectTree_Match sample_lib (insertAll sample_lib NewRedirectTreeMatcher sample_rules)
     ''example.com'' ''/api/v2/items'' = Inr (Some rule_api, ''/v'')
   \<and> RedirectTree_Match sample_lib (insertAll sample_lib NewRedirectTreeMatcher sample_rules)
     ''example.com'' ''/a'' = Inr (Some rule_host, ''/host'')
   \<and> RedirectTree_Match sample_lib (insertAll sample_lib NewRedirectTreeMatcher sample_rules)
     ''example.com'' ''/none'' = Inr (None, [])"
proof -
  note t = Match_tiers[OF sort_ok_sample, of sample_rules]
  have 1: "RedirectTree_Match sample_lib (insertAll sample_lib NewRedirectTreeMatcher sample_rules)
     ''example.com'' ''/api/v2/items'' = Inr (Some rule_api, ''/v'')"
    unfolding t[of "''example.com''" "''/api/v2/items''"] by code_simp
  have 2: "RedirectTree_Match sample_lib (insertAll sample_lib NewRedirectTreeMatcher sample_rules)
     ''example.com'' ''/a'' = Inr (Some rule_host, ''/host'')"
    unfolding t[of "''example.com''" "''/a''"] by code_simp
  have 3: "RedirectTree_Match sample_lib (insertAll sample_lib NewRedirectTreeMatcher sample_rules)
     ''example.com'' ''/none'' = Inr (None, [])"
    unfolding t[of "''example.com''" "''/none''"] by code_simp
  from 1 2 3 show ?thesis by simp
qed

text \<open>
  C6. \<open>Insert\<close> returns an error exactly when the rule's type is REGEX or REGEX_HOST and
  its source does not compile; BASIC and BASIC_HOST inserts return no error; and when
  \<open>Insert\<close> returns an error the matcher is what it was before the call.
\<close>

theorem Insert_error_iff:
  "(fst (RedirectTree_Insert L rt r) \<noteq> None \<longleftrightarrow>
      (Redirect.Type r = ''REGEX'' \<or> Redirect.Type r = ''REGEX_HOST'') \<and>
      isl (regexp_Compile L (Source r)))
   \<and> (Redirect.Type r = ''BASIC'' \<or> Redirect.Type r = ''BASIC_HOST'' \<longrightarrow>
        fst (RedirectTree_Insert L rt r) = None)
   \<and> (fst (RedirectTree_Insert L rt r) \<noteq> None \<longrightarrow> snd (RedirectTree_Insert L rt r) = rt)"
  by (auto simp: RedirectTree_Insert_def RedirectTypeBasic_def RedirectTypeBasicHost_def
      RedirectTypeRegex_def RedirectTypeRegexHost_def Let_def split: sum.splits prod.splits)

theorem Insert_error_iff_witness:
  "fst (RedirectTree_Insert sample_lib (insertAll sample_lib NewRedirectTreeMatcher [rule_host, rule_api])
          rule_bad) \<noteq> None
   \<and> snd (RedirectTree_Insert sample_lib (insertAll sample_lib NewRedirectTreeMatcher [rule_host, rule_api])
          rule_bad) = insertAll sample_lib NewRedirectTreeMatcher [rule_host, rule_api]
   \<and> fst (RedirectTree_Insert sample_lib NewRedirectTreeMatcher rule_basic) = None"
proof -
  have e: "fst (RedirectTree_Insert sample_lib
            (insertAll sample_lib NewRedirectTreeMatcher [rule_host, rule_api]) rule_bad) \<noteq> None"
    by code_simp
  have b: "Redirect.Type rule_basic = ''BASIC''"
    by (simp add: rule_basic_def)
  show ?thesis
    using Insert_error_iff[of sample_lib "insertAll sample_lib NewRedirectTreeMatcher [rule_host, rule_api]" rule_bad]
      Insert_error_iff[of sample_lib NewRedirectTreeMatcher rule_basic] e b
    by blast
qed

section \<open>Empty inputs\<close>

lemma candidates_built:
  assumes "buckets_ok tree"
  shows "candidates tree root input =
     concat (map (redirects \<circ> snd) (filter (\<lambda>(k, b). k \<noteq> [] \<and> prefix k input) tree)) @ root"
proof -
  have "filter (\<lambda>(k, b). prefix k input \<and> (k = [] \<longrightarrow> input = [])) tree =
        filter (\<lambda>(k, b). k \<noteq> [] \<and> prefix k input) tree"
    using assms by (intro filter_cong) (auto simp: buckets_ok_def list_all_iff)
  then show ?thesis by (simp add: candidates_eq)
qed

lemma candidates_empty_input:
  assumes "buckets_ok tree"
  shows "candidates tree root [] = root"
proof -
  have "filter (\<lambda>(k, b). k \<noteq> [] \<and> prefix k []) tree = []"
    by (induction tree) auto
  then show ?thesis by (simp add: candidates_built[OF assms])
qed

lemma first_match_sorted_None:
  assumes "sort_ok L"
  shows "first_match (sortBySourceLength L cs) input = None \<longleftrightarrow> first_match cs input = None"
proof -
  have "set (sortBySourceLength L cs) = set cs"
    using assms unfolding sort_ok_def by (metis mset_eq_setD)
  then show ?thesis by (simp add: first_match_None_iff list_all_iff)
qed

text \<open>
  C10. \<open>Match\<close> is total, also on empty strings. The slice \<open>input[:minInt(len(input), 1)]\<close>
  that seeds the prefix walk is always within bounds (it is the first byte of the input, or
  the empty string); for every matcher built by \<open>Insert\<close> calls \<open>Match\<close> returns a value
  for every host and uri; on the empty input the candidates of each regex tier are the
  root bucket alone; and \<open>Match\<close> on an empty host and uri returns the no-match result when
  neither exact index has an entry for the empty key and no root-bucket rule matches.
\<close>

theorem Match_total_on_empty:
  fixes L :: stdlib and rs :: "Redirect list"
  defines "rt \<equiv> insertAll L NewRedirectTreeMatcher rs"
  assumes ok: "sort_ok L"
  shows "slice_to input (minInt (int (length input)) 1) = Inr (take 1 input)
     \<and> (\<exists>res. RedirectTree_Match L rt host uri = Inr res)
     \<and> candidates (RedirectTree.regexHost rt) (regexHostRoot rt) [] = regexHostRoot rt
     \<and> candidates (RedirectTree.regex rt) (regexRoot rt) [] = regexRoot rt
     \<and> (radix_Get (RedirectTree.basicHost rt) [] = None \<and>
         radix_Get (RedirectTree.basic rt) [] = None \<and>
         first_match (regexHostRoot rt) [] = None \<and> first_match (regexRoot rt) [] = None
         \<longrightarrow> RedirectTree_Match L rt [] [] = Inr (None, []))"
proof -
  have b: "built_ok rt"
    unfolding rt_def by (rule built_ok_insertAll_New)
  then have c: "candidates (RedirectTree.regexHost rt) (regexHostRoot rt) [] = regexHostRoot rt"
    "candidates (RedirectTree.regex rt) (regexRoot rt) [] = regexRoot rt"
    by (simp_all add: built_ok_def candidates_empty_input)
  have "\<exists>res. RedirectTree_Match L rt host uri = Inr res"
    unfolding Match_eq[OF ok b] by blast
  moreover have "RedirectTree_Match L rt [] [] = Inr (None, [])"
    if "radix_Get (RedirectTree.basicHost rt) [] = None"
       "radix_Get (RedirectTree.basic rt) [] = None"
       "first_match (regexHostRoot rt) [] = None" "first_match (regexRoot rt) [] = None"
  proof -
    have "first_match (sortBySourceLength L (regexHostRoot rt)) [] = None"
      "first_match (sortBySourceLength L (regexRoot rt)) [] = None"
      using that by (simp_all add: first_match_sorted_None[OF ok])
    with that show ?thesis
      by (simp add: Match_eq[OF ok b] c)
  qed
  ultimately show ?thesis
    using c by (simp add: slice_first)
qed

theorem Match_total_on_empty_witness:
  "RedirectTree_Match sample_lib (insertAll sample_lib NewRedirectTreeMatcher sample_rules) [] []
     = Inr (None, [])
   \<and> map Redirect (candidates
          (RedirectTree.regex (insertAll sample_lib NewRedirectTreeMatcher sample_rules))
          (regexRoot (insertAll sample_lib NewRedirectTreeMatcher sample_rules)) [])
      = [rule_xml]"
proof -
  let ?rt = "insertAll sample_lib NewRedirectTreeMatcher sample_rules"
  note t = Match_total_on_empty[OF sort_ok_sample, of "[]" sample_rules "[]" "[]"]
  have 1: "radix_Get (RedirectTree.basicHost ?rt) [] = None" by code_simp
  have 2: "radix_Get (RedirectTree.basic ?rt) [] = None" by code_simp
  have 3: "first_match (regexHostRoot ?rt) [] = None" by code_simp
  have 4: "first_match (regexRoot ?rt) [] = None" by code_simp
  have 5: "map Redirect (regexRoot ?rt) = [rule_xml]" by code_simp
  from t 1 2 3 4 have "RedirectTree_Match sample_lib ?rt [] [] = Inr (None, [])"
    by blast
  moreover from t have "candidates (RedirectTree.regex ?rt) (regexRoot ?rt) [] = regexRoot ?rt"
    by blast
  ultimately show ?thesis using 5 by simp
qed

section \<open>The candidates of a regex tier\<close>

lemma bucketInsert_root_mono:
  "bucketInsert (tree, root) pfx cr = (tree', root') \<Longrightarrow> set root \<subseteq> set root'"
  by (auto simp: bucketInsert_def split: if_splits option.splits)

lemma Insert_root_mono:
  "set (regexRoot rt) \<subseteq> set (regexRoot (snd (RedirectTree_Insert L rt r)))"
  "set (regexHostRoot rt) \<subseteq> set (regexHostRoot (snd (RedirectTree_Insert L rt r)))"
  by (auto simp: RedirectTree_Insert_def Let_def split: sum.splits prod.splits
      dest: bucketInsert_root_mono)

lemma insertAll_Cons:
  "insertAll L rt (r # rs) = insertAll L (snd (RedirectTree_Insert L rt r)) rs"
  by (simp add: insertAll_def)

lemma insertAll_root_mono:
  "set (regexRoot rt) \<subseteq> set (regexRoot (insertAll L rt rs))"
  "set (regexHostRoot rt) \<subseteq> set (regexHostRoot (insertAll L rt rs))"
proof (induction rs arbitrary: rt)
  case Nil
  { case 1 show ?case by (simp add: insertAll_def) }
  { case 2 show ?case by (simp add: insertAll_def) }
next
  case (Cons a rs)
  { case 1 show ?case
      using Insert_root_mono(1)[of rt L a] Cons.IH(1)[of "snd (RedirectTree_Insert L rt a)"]
      by (auto simp: insertAll_Cons) }
  { case 2 show ?case
      using Insert_root_mono(2)[of rt L a] Cons.IH(2)[of "snd (RedirectTree_Insert L rt a)"]
      by (auto simp: insertAll_Cons) }
qed

lemma Insert_root_adds:
  assumes "regexp_Compile L (Source r) = Inr re" "extractRegexPrefix L (Source r) = []"
  shows "Redirect.Type r = ''REGEX'' \<Longrightarrow>
           \<lparr>Redirect = r, regex = Some re\<rparr> \<in> set (regexRoot (snd (RedirectTree_Insert L rt r)))"
    and "Redirect.Type r = ''REGEX_HOST'' \<Longrightarrow>
           \<lparr>Redirect = r, regex = Some re\<rparr> \<in> set (regexHostRoot (snd (RedirectTree_Insert L rt r)))"
  using assms
  by (auto simp: RedirectTree_Insert_def Let_def bucketInsert_def RedirectTypeBasic_def
      RedirectTypeBasicHost_def RedirectTypeRegex_def RedirectTypeRegexHost_def)

lemma insertAll_root_contains:
  assumes "r \<in> set rs" "regexp_Compile L (Source r) = Inr re" "extractRegexPrefix L (Source r) = []"
  shows "Redirect.Type r = ''REGEX'' \<Longrightarrow>
           \<lparr>Redirect = r, regex = Some re\<rparr> \<in> set (regexRoot (insertAll L rt rs))"
    and "Redirect.Type r = ''REGEX_HOST'' \<Longrightarrow>
           \<lparr>Redirect = r, regex = Some re\<rparr> \<in> set (regexHostRoot (insertAll L rt rs))"
  using assms(1)
proof (induction rs arbitrary: rt)
  case Nil
  { case 1 then show ?case by simp }
  { case 2 then show ?case by simp }
next
  case (Cons a rs)
  { case 1
    show ?case
    proof (cases "r = a")
      case True
      then show ?thesis
        using Insert_root_adds(1)[OF assms(2,3) 1(1), of rt]
          insertAll_root_mono(1)[of "snd (RedirectTree_Insert L rt a)" L rs]
        by (auto simp: insertAll_Cons)
    next
      case False
      then show ?thesis using Cons.IH(1)[OF 1(1)] 1(2) by (simp add: insertAll_Cons)
    qed }
  { case 2
    show ?case
    proof (cases "r = a")
      case True
      then show ?thesis
        using Insert_root_adds(2)[OF assms(2,3) 2(1), of rt]
          insertAll_root_mono(2)[of "snd (RedirectTree_Insert L rt a)" L rs]
        by (auto simp: insertAll_Cons)
    next
      case False
      then show ?thesis using Cons.IH(2)[OF 2(1)] 2(2) by (simp add: insertAll_Cons)
    qed }
qed

lemma root_in_candidates: "cr \<in> set root \<Longrightarrow> cr \<in> set (candidates tree root input)"
  by (simp add: candidates_eq)

lemma first_match_sorted_Some:
  assumes "sort_ok L" "cr \<in> set cs" "submatch cr input \<noteq> None"
  shows "first_match (sortBySourceLength L cs) input \<noteq> None"
proof -
  have "first_match cs input \<noteq> None"
    using assms(2,3) by (auto simp: first_match_None_iff list_all_iff)
  then show ?thesis by (simp add: first_match_sorted_None[OF assms(1)])
qed

lemma Match_hit_regex:
  assumes "sort_ok L" "built_ok rt"
    and "first_match (sortBySourceLength L
           (candidates (RedirectTree.regex rt) (regexRoot rt) uri)) uri \<noteq> None"
  shows "\<exists>r' t. RedirectTree_Match L rt host uri = Inr (Some r', t)"
  using assms(3) unfolding Match_eq[OF assms(1,2)]
  by (auto split: option.splits)

lemma Match_hit_regexHost:
  assumes "sort_ok L" "built_ok rt"
    and "first_match (sortBySourceLength L
           (candidates (RedirectTree.regexHost rt) (regexHostRoot rt) (host @ uri))) (host @ uri) \<noteq> None"
  shows "\<exists>r' t. RedirectTree_Match L rt host uri = Inr (Some r', t)"
  using assms(3) unfolding Match_eq[OF assms(1,2)]
  by (auto split: option.splits)

text \<open>
  C2. In a matcher built by \<open>Insert\<close> calls, the candidates that \<open>matchRegex\<close> assembles
  for an input are exactly the redirects of every stored bucket whose (non-empty) key is a
  prefix of the input, in walk order, followed by the redirects of the root bucket. In
  particular a REGEX (or REGEX_HOST) rule that compiled and whose extracted prefix is empty
  is a candidate of its tier for every \<open>uri\<close> (or \<open>host + uri\<close>), and when its pattern
  matches, \<open>Match\<close> returns a redirect and not the no-match result.
\<close>

theorem candidates_exact:
  fixes L :: stdlib and rs :: "Redirect list"
  defines "rt \<equiv> insertAll L NewRedirectTreeMatcher rs"
  assumes ok: "sort_ok L"
  shows "candidates (RedirectTree.regexHost rt) (regexHostRoot rt) input =
           concat (map (redirects \<circ> snd)
             (filter (\<lambda>(k, b). k \<noteq> [] \<and> prefix k input) (RedirectTree.regexHost rt)))
           @ regexHostRoot rt
     \<and> candidates (RedirectTree.regex rt) (regexRoot rt) input =
           concat (map (redirects \<circ> snd)
             (filter (\<lambda>(k, b). k \<noteq> [] \<and> prefix k input) (RedirectTree.regex rt)))
           @ regexRoot rt
     \<and> (r \<in> set rs \<and> Redirect.Type r = ''REGEX'' \<and> regexp_Compile L (Source r) = Inr re \<and>
         extractRegexPrefix L (Source r) = [] \<longrightarrow>
           \<lparr>Redirect = r, regex = Some re\<rparr>
             \<in> set (candidates (RedirectTree.regex rt) (regexRoot rt) uri) \<and>
           (re uri \<noteq> None \<longrightarrow> (\<exists>r' t. RedirectTree_Match L rt host uri = Inr (Some r', t))))
     \<and> (rh \<in> set rs \<and> Redirect.Type rh = ''REGEX_HOST'' \<and>
         regexp_Compile L (Source rh) = Inr reh \<and> extractRegexPrefix L (Source rh) = [] \<longrightarrow>
           \<lparr>Redirect = rh, regex = Some reh\<rparr>
             \<in> set (candidates (RedirectTree.regexHost rt) (regexHostRoot rt) (host @ uri)) \<and>
           (reh (host @ uri) \<noteq> None \<longrightarrow>
              (\<exists>r' t. RedirectTree_Match L rt host uri = Inr (Some r', t))))"
proof -
  have b: "built_ok rt"
    unfolding rt_def by (rule built_ok_insertAll_New)
  have 1: "candidates (RedirectTree.regexHost rt) (regexHostRoot rt) input =
           concat (map (redirects \<circ> snd)
             (filter (\<lambda>(k, b). k \<noteq> [] \<and> prefix k input) (RedirectTree.regexHost rt)))
           @ regexHostRoot rt"
    using b by (simp add: built_ok_def candidates_built)
  have 2: "candidates (RedirectTree.regex rt) (regexRoot rt) input =
           concat (map (redirects \<circ> snd)
             (filter (\<lambda>(k, b). k \<noteq> [] \<and> prefix k input) (RedirectTree.regex rt)))
           @ regexRoot rt"
    using b by (simp add: built_ok_def candidates_built)
  have 3: "\<lparr>Redirect = r, regex = Some re\<rparr>
             \<in> set (candidates (RedirectTree.regex rt) (regexRoot rt) uri) \<and>
           (re uri \<noteq> None \<longrightarrow> (\<exists>r' t. RedirectTree_Match L rt host uri = Inr (Some r', t)))"
    if h: "r \<in> set rs" "Redirect.Type r = ''REGEX''" "regexp_Compile L (Source r) = Inr re"
      "extractRegexPrefix L (Source r) = []"
  proof -
    let ?cr = "\<lparr>Redirect = r, regex = Some re\<rparr>"
    have m: "?cr \<in> set (candidates (RedirectTree.regex rt) (regexRoot rt) uri)"
      unfolding rt_def
      by (intro root_in_candidates insertAll_root_contains(1)[OF h(1,3,4,2)])
    have "\<exists>r' t. RedirectTree_Match L rt host uri = Inr (Some r', t)" if "re uri \<noteq> None"
    proof -
      have "submatch ?cr uri \<noteq> None" using that by (simp add: submatch_def)
      from first_match_sorted_Some[OF ok m this] show ?thesis
        by (rule Match_hit_regex[OF ok b])
    qed
    with m show ?thesis by blast
  qed
  have 4: "\<lparr>Redirect = rh, regex = Some reh\<rparr>
             \<in> set (candidates (RedirectTree.regexHost rt) (regexHostRoot rt) (host @ uri)) \<and>
           (reh (host @ uri) \<noteq> None \<longrightarrow>
              (\<exists>r' t. RedirectTree_Match L rt host uri = Inr (Some r', t)))"
    if h: "rh \<in> set rs" "Redirect.Type rh = ''REGEX_HOST''"
      "regexp_Compile L (Source rh) = Inr reh" "extractRegexPrefix L (Source rh) = []"
  proof -
    let ?cr = "\<lparr>Redirect = rh, regex = Some reh\<rparr>"
    have m: "?cr \<in> set (candidates (RedirectTree.regexHost rt) (regexHostRoot rt) (host @ uri))"
      unfolding rt_def
      by (intro root_in_candidates insertAll_root_contains(2)[OF h(1,3,4,2)])
    have "\<exists>r' t. RedirectTree_Match L rt host uri = Inr (Some r', t)"
      if "reh (host @ uri) \<noteq> None"
    proof -
      have "submatch ?cr (host @ uri) \<noteq> None" using that by (simp add: submatch_def)
      from first_match_sorted_Some[OF ok m this] show ?thesis
        by (rule Match_hit_regexHost[OF ok b])
    qed
    with m show ?thesis by blast
  qed
  from 1 2 3 4 show ?thesis by blast
qed


theorem candidates_exact_witness:
  "\<lparr>Redirect = rule_xml, regex = Some match_xml\<rparr>
     \<in> set (candidates
          (RedirectTree.regex (insertAll sample_lib NewRedirectTreeMatcher (sample_rules @ [rule_xml_host])))
          (regexRoot (insertAll sample_lib NewRedirectTreeMatcher (sample_rules @ [rule_xml_host])))
          ''/sitemap.xml'')
   \<and> \<lparr>Redirect = rule_xml_host, regex = Some match_xml\<rparr>
     \<in> set (candidates
          (RedirectTree.regexHost (insertAll sample_lib NewRedirectTreeMatcher (sample_rules @ [rule_xml_host])))
          (regexHostRoot (insertAll sample_lib NewRedirectTreeMatcher (sample_rules @ [rule_xml_host])))
          (''example.com'' @ ''/sitemap.xml''))
   \<and> (\<exists>r' t. RedirectTree_Match sample_lib
          (insertAll sample_lib NewRedirectTreeMatcher (sample_rules @ [rule_xml_host]))
          ''example.com'' ''/sitemap.xml'' = Inr (Some r', t))
   \<and> RedirectTree_Match sample_lib (insertAll sample_lib NewRedirectTreeMatcher sample_rules)
          ''example.com'' ''/sitemap.xml'' = Inr (Some rule_xml, ''/sitemap'')"
proof -
  note t = candidates_exact[OF sort_ok_sample,
      of "sample_rules @ [rule_xml_host]" _ rule_xml match_xml "''/sitemap.xml''" "''example.com''"
         rule_xml_host match_xml]
  have 1: "rule_xml \<in> set (sample_rules @ [rule_xml_host])"
    "rule_xml_host \<in> set (sample_rules @ [rule_xml_host])"
    by (simp_all add: sample_rules_def)
  have 2: "Redirect.Type rule_xml = ''REGEX''" "Redirect.Type rule_xml_host = ''REGEX_HOST''"
    by (simp_all add: rule_xml_def rule_xml_host_def)
  have 3: "regexp_Compile sample_lib (Source rule_xml) = Inr match_xml"
    "regexp_Compile sample_lib (Source rule_xml_host) = Inr match_xml"
    by (simp_all add: sample_lib_def sample_Compile_def rule_xml_def rule_xml_host_def
        xml_pattern_def)
  have 4: "extractRegexPrefix sample_lib (Source rule_xml) = []"
    "extractRegexPrefix sample_lib (Source rule_xml_host) = []"
    by code_simp+
  have 5: "match_xml ''/sitemap.xml'' \<noteq> None"
    "match_xml (''example.com'' @ ''/sitemap.xml'') \<noteq> None"
    by code_simp+
  have 6: "RedirectTree_Match sample_lib (insertAll sample_lib NewRedirectTreeMatcher sample_rules)
          ''example.com'' ''/sitemap.xml'' = Inr (Some rule_xml, ''/sitemap'')"
    by code_simp
  from t 1 2 3 4 5 6 show ?thesis by blast
qed

section \<open>Order of evaluation within a regex tier\<close>

lemma string_of_rune_ascii:
  assumes "(of_char c :: nat) < 128"
  shows "string_of_rune (of_char c) = [c]"
proof -
  have e: "(of_char c :: int) = int (of_char c)" by (simp add: of_nat_of_char)
  have "nat (of_char c :: int) = of_char c" unfolding e by simp
  moreover have "(of_char c :: int) < 128" "(0::int) \<le> of_char c"
    unfolding e using assms by simp_all
  ultimately show ?thesis
    by (simp add: string_of_rune_def)
qed

lemma string_of_runes_literal:
  "list_all (\<lambda>c. (of_char c :: nat) < 128) s \<Longrightarrow> string_of_runes (map of_char s) = s"
  by (induction s) (simp_all add: string_of_runes_def string_of_rune_ascii)

lemma extract_literal:
  "list_all (\<lambda>c. (of_char c :: nat) < 128) s \<Longrightarrow> extractLiteralPrefix (literal s) = s"
  by (simp add: literal_def string_of_runes_literal)

lemma first_match_longest:
  assumes "sorted_wrt (\<lambda>x y. length (Source (Redirect x)) \<ge> length (Source (Redirect y))) cs"
    and "a \<in> set cs" "submatch a input = Some ma"
    and "\<forall>c\<in>set cs. submatch c input \<noteq> None \<longrightarrow>
           c = a \<or> length (Source (Redirect c)) < length (Source (Redirect a))"
  shows "first_match cs input = Some (a, ma)"
  using assms
proof (induction cs)
  case Nil
  then show ?case by simp
next
  case (Cons c cs)
  show ?case
  proof (cases "c = a")
    case True
    with Cons.prems show ?thesis by simp
  next
    case False
    have "submatch c input = None"
    proof (rule ccontr)
      assume "submatch c input \<noteq> None"
      with Cons.prems(4) False
      have "length (Source (Redirect c)) < length (Source (Redirect a))" by auto
      moreover have "a \<in> set cs" using Cons.prems(2) False by auto
      ultimately show False using Cons.prems(1) by auto
    qed
    moreover have "first_match cs input = Some (a, ma)"
      using Cons.prems False by (intro Cons.IH) auto
    ultimately show ?thesis by simp
  qed
qed

lemma matchLoop_stops:
  "compiled xs \<Longrightarrow> first_match xs input = None \<Longrightarrow> submatch cr input = Some ms \<Longrightarrow>
   matchLoop (xs @ cr # ys) input = Inr (Some (Redirect cr), resolveTarget (Target (Redirect cr)) ms)"
  by (induction xs) (auto simp: compiled_def submatch_def split: option.splits)

lemma candidates_xml_api:
  "candidates (RedirectTree.regex (insertAll sample_lib NewRedirectTreeMatcher [rule_xml, rule_api]))
      (regexRoot (insertAll sample_lib NewRedirectTreeMatcher [rule_xml, rule_api])) ''/api/sitemap.xml''
   = [\<lparr>Redirect = rule_api, regex = Some match_api\<rparr>, \<lparr>Redirect = rule_xml, regex = Some match_xml\<rparr>]"
  by (simp add: candidates_eq insertAll_def RedirectTree_Insert_def NewRedirectTreeMatcher_def
      radix_New_def bucketInsert_def extractRegexPrefix_def strings_TrimPrefix_def
      sample_lib_def sample_Compile_def sample_Parse_def rule_api_def rule_xml_def xml_pattern_def
      RedirectTypeBasic_def RedirectTypeBasicHost_def RedirectTypeRegex_def RedirectTypeRegexHost_def
      extract_literal string_of_runes_literal[of "''.xml''", unfolded literal_def[symmetric]] literal_def[of "''.xml''"]
      syntax_Perl_def radix_Get_def Let_def)

text \<open>
  C4, as amended. Within a regex tier the candidates are evaluated in descending order of
  the length of their \<open>Source\<close> text, and the first candidate whose pattern matches the
  input is returned; what follows it in the sorted list is never looked at (not even a
  candidate without a compiled pattern after the hit can make the loop panic). Hence,
  whenever two of the \<^emph>\<open>candidates\<close> of the tier for an input (rules of the root bucket
  or of a bucket whose key is a prefix of the input) have sources of different lengths and
  are the only candidates that match, the one with the longer source is returned, whatever
  the order in which the candidates were inserted or collected.
\<close>

theorem longest_source_first:
  assumes ok: "sort_ok L" and t: "buckets_ok tree" and r: "compiled root"
  shows "matchRegex L tree root input =
           Inr (answer (first_match (sortBySourceLength L (candidates tree root input)) input))
     \<and> mset (sortBySourceLength L (candidates tree root input)) = mset (candidates tree root input)
     \<and> sorted_wrt (\<lambda>x y. length (Source (Redirect x)) \<ge> length (Source (Redirect y)))
          (sortBySourceLength L (candidates tree root input))
     \<and> (compiled xs \<and> first_match xs input = None \<and> submatch cr input = Some ms \<longrightarrow>
          matchLoop (xs @ cr # ys) input =
            Inr (Some (Redirect cr), resolveTarget (Target (Redirect cr)) ms))
     \<and> (a \<in> set (candidates tree root input) \<and> b \<in> set (candidates tree root input) \<and>
         submatch a input = Some ma \<and> submatch b input \<noteq> None \<and>
         length (Source (Redirect a)) > length (Source (Redirect b)) \<and>
         (\<forall>c\<in>set (candidates tree root input). submatch c input \<noteq> None \<longrightarrow> c = a \<or> c = b)
         \<longrightarrow> matchRegex L tree root input =
               Inr (Some (Redirect a), resolveTarget (Target (Redirect a)) ma))"
proof -
  let ?cs = "candidates tree root input"
  let ?S = "sortBySourceLength L ?cs"
  have 1: "matchRegex L tree root input = Inr (answer (first_match ?S input))"
    using ok t r by (rule matchRegex_eq)
  have 2: "mset ?S = mset ?cs"
    and 3: "sorted_wrt (\<lambda>x y. length (Source (Redirect x)) \<ge> length (Source (Redirect y))) ?S"
    using ok unfolding sort_ok_def by blast+
  have s: "set ?S = set ?cs" using 2 by (rule mset_eq_setD)
  have 5: "matchRegex L tree root input =
               Inr (Some (Redirect a), resolveTarget (Target (Redirect a)) ma)"
    if "a \<in> set ?cs" "b \<in> set ?cs" "submatch a input = Some ma" "submatch b input \<noteq> None"
      "length (Source (Redirect a)) > length (Source (Redirect b))"
      "\<forall>c\<in>set ?cs. submatch c input \<noteq> None \<longrightarrow> c = a \<or> c = b"
  proof -
    have "first_match ?S input = Some (a, ma)"
      using 3 that unfolding s[symmetric] by (intro first_match_longest) auto
    then show ?thesis by (simp add: 1 answer_def)
  qed
  from 1 2 3 5 matchLoop_stops[of xs input cr ms ys] show ?thesis by blast
qed

theorem longest_source_first_witness:
  "matchRegex sample_lib
     (RedirectTree.regex (insertAll sample_lib NewRedirectTreeMatcher [rule_xml, rule_api]))
     (regexRoot (insertAll sample_lib NewRedirectTreeMatcher [rule_xml, rule_api]))
     ''/api/sitemap.xml'' = Inr (Some rule_xml, ''/sitemap'')
   \<and> matchLoop [\<lparr>Redirect = rule_items, regex = Some match_items\<rparr>,
                 \<lparr>Redirect = rule_api, regex = Some match_api\<rparr>,
                 \<lparr>Redirect = rule_bad, regex = None\<rparr>] ''/api/v1'' = Inr (Some rule_api, ''/v'')"
proof -
  let ?rt = "insertAll sample_lib NewRedirectTreeMatcher [rule_xml, rule_api]"
  let ?a = "\<lparr>Redirect = rule_xml, regex = Some match_xml\<rparr>"
  let ?b = "\<lparr>Redirect = rule_api, regex = Some match_api\<rparr>"
  let ?i = "\<lparr>Redirect = rule_items, regex = Some match_items\<rparr>"
  let ?n = "\<lparr>Redirect = rule_bad, regex = None\<rparr>"
  let ?cs = "candidates (RedirectTree.regex ?rt) (regexRoot ?rt) ''/api/sitemap.xml''"
  have "built_ok ?rt" by (rule built_ok_insertAll_New)
  then have bt: "buckets_ok (RedirectTree.regex ?rt)" and br: "compiled (regexRoot ?rt)"
    by (simp_all add: built_ok_def)
  note t = longest_source_first[OF sort_ok_sample bt br,
      where input = "''/api/sitemap.xml''" and a = ?a and b = ?b and ma = "[''/api/sitemap.xml'']"]
  note u = longest_source_first[OF sort_ok_sample bt br,
      where input = "''/api/v1''" and xs = "[?i]" and cr = ?b and ms = "[''/api'']" and ys = "[?n]"]
  have ma: "submatch ?a ''/api/sitemap.xml'' = Some [''/api/sitemap.xml'']"
    by (simp add: submatch_def match_xml_def suffix_to_prefix)
  have mb: "submatch ?b ''/api/sitemap.xml'' \<noteq> None"
    by (simp add: submatch_def match_api_def)
  have len: "length (Source (Redirect ?a)) > length (Source (Redirect ?b))"
    by (simp add: rule_xml_def rule_api_def xml_pattern_def)
  have ina: "?a \<in> set ?cs" and inb: "?b \<in> set ?cs"
    and only: "\<forall>c\<in>set ?cs. submatch c ''/api/sitemap.xml'' \<noteq> None \<longrightarrow> c = ?a \<or> c = ?b"
    unfolding candidates_xml_api by simp_all
  from t ina inb ma mb len only
  have 1: "matchRegex sample_lib (RedirectTree.regex ?rt) (regexRoot ?rt) ''/api/sitemap.xml''
        = Inr (Some (Redirect ?a), resolveTarget (Target (Redirect ?a)) [''/api/sitemap.xml''])"
    by blast
  have 2: "resolveTarget (Target (Redirect ?a)) [''/api/sitemap.xml''] = ''/sitemap''"
    by (simp add: resolveTarget_def rule_xml_def)
  have c: "compiled [?i]" and f: "first_match [?i] ''/api/v1'' = None"
    and m: "submatch ?b ''/api/v1'' = Some [''/api'']"
    by (simp_all add: compiled_def submatch_def match_items_def match_api_def sublist_Cons_right)
  from u c f m
  have 3: "matchLoop ([?i] @ ?b # [?n]) ''/api/v1''
      = Inr (Some (Redirect ?b), resolveTarget (Target (Redirect ?b)) [''/api''])"
    by blast
  have 4: "resolveTarget (Target (Redirect ?b)) [''/api''] = ''/v''"
    by (simp add: resolveTarget_def rule_api_def)
  from 1 2 3 4 show ?thesis by simp
qed

text \<open>
  C4 as stated speaks of any two REGEX rules that match the input. A rule that matches is
  not always a candidate: \<open>v2/items\<close> has no anchor, it matches \<open>/api/v2/items\<close>, but it
  is stored under the prefix \<open>v2/items\<close>, which does not start the input. With the shorter
  rule \<open>^/api\<close> both rules match, and \<open>Match\<close> returns the shorter one in either
  insertion order.
\<close>

theorem longer_source_counterexample:
  "regexp_Compile sample_lib (Source rule_items) = Inr match_items
   \<and> regexp_Compile sample_lib (Source rule_api) = Inr match_api
   \<and> match_items ''/api/v2/items'' = Some [''v2/items'']
   \<and> match_api ''/api/v2/items'' = Some [''/api'']
   \<and> length (Source rule_items) > length (Source rule_api)
   \<and> RedirectTree_Match sample_lib
        (insertAll sample_lib NewRedirectTreeMatcher [rule_api, rule_items])
        ''example.com'' ''/api/v2/items'' = Inr (Some rule_api, ''/v'')
   \<and> RedirectTree_Match sample_lib
        (insertAll sample_lib NewRedirectTreeMatcher [rule_items, rule_api])
        ''example.com'' ''/api/v2/items'' = Inr (Some rule_api, ''/v'')"
proof -
  have "regexp_Compile sample_lib (Source rule_items) = Inr match_items"
    "regexp_Compile sample_lib (Source rule_api) = Inr match_api"
    by (simp_all add: sample_lib_def sample_Compile_def rule_items_def rule_api_def)
  moreover have "match_items ''/api/v2/items'' = Some [''v2/items'']"
    "match_api ''/api/v2/items'' = Some [''/api'']"
    "length (Source rule_items) > length (Source rule_api)"
    by code_simp+
  moreover have "RedirectTree_Match sample_lib
        (insertAll sample_lib NewRedirectTreeMatcher [rule_api, rule_items])
        ''example.com'' ''/api/v2/items'' = Inr (Some rule_api, ''/v'')"
    by code_simp
  moreover have "RedirectTree_Match sample_lib
        (insertAll sample_lib NewRedirectTreeMatcher [rule_items, rule_api])
        ''example.com'' ''/api/v2/items'' = Inr (Some rule_api, ''/v'')"
    by code_simp
  ultimately show ?thesis by blast
qed

section \<open>Placeholder substitution\<close>

lemma placeholder_eq:
  assumes "i \<le> 9"
  shows "''$'' @ string_of_rune (48 + int i) = [CHR ''$'', char_of (48 + i)]"
proof -
  have "nat (48 + int i) = 48 + i" by simp
  then show ?thesis using assms by (simp add: string_of_rune_def)
qed

lemma ReplaceAll_skip:
  "CHR ''$'' \<notin> set u \<Longrightarrow>
   strings_ReplaceAll (u @ x) (CHR ''$'' # p) new = u @ strings_ReplaceAll x (CHR ''$'' # p) new"
  by (induction u) auto

lemma substitute_above_Cons:
  "d \<noteq> CHR ''$'' \<Longrightarrow> substitute_above lo ms (d # t) = d # substitute_above lo ms t"
  by (cases t) auto

lemma no_double_tail:
  "\<not> sublist ''$$'' (c # t) \<Longrightarrow> \<not> sublist ''$$'' t"
  by (simp add: sublist_Cons_right)

lemma no_double_head:
  "\<not> sublist ''$$'' (c # d # t) \<Longrightarrow> \<not> (c = CHR ''$'' \<and> d = CHR ''$'')"
  by (auto simp: sublist_Cons_right)

lemma token_char:
  assumes "is_token lo ms d" 
  shows "d = char_of (48 + token_index d)" "d \<noteq> CHR ''$''"
proof -
  have "(48::nat) + token_index d = of_char d"
    using assms by (simp add: is_token_def token_index_def)
  then show "d = char_of (48 + token_index d)" by simp
  show "d \<noteq> CHR ''$''" using assms by (auto simp: is_token_def)
qed

lemma token_index_char_of: "i \<le> 9 \<Longrightarrow> token_index (char_of (48 + i)) = i"
  by (simp add: token_index_def)

lemma is_token_step:
  assumes "1 \<le> i" "i \<le> 9" "i < length ms"
  shows "is_token (i - 1) ms d \<longleftrightarrow> is_token i ms d \<or> d = char_of (48 + i)"
proof
  assume a: "is_token (i - 1) ms d"
  show "is_token i ms d \<or> d = char_of (48 + i)"
  proof (cases "token_index d = i")
    case True
    then show ?thesis using token_char(1)[OF a] by simp
  next
    case False
    then show ?thesis using a assms by (auto simp: is_token_def)
  qed
next
  assume "is_token i ms d \<or> d = char_of (48 + i)"
  then show "is_token (i - 1) ms d"
  proof
    assume "is_token i ms d" then show ?thesis by (auto simp: is_token_def)
  next
    assume d: "d = char_of (48 + i)"
    have "(of_char d :: nat) = 48 + i" unfolding d using assms by simp
    then show ?thesis using assms by (simp add: is_token_def token_index_def)
  qed
qed

lemma replace_step:
  assumes i: "1 \<le> i" "i \<le> 9" "i < length ms"
    and v: "list_all (\<lambda>v. CHR ''$'' \<notin> set v) (drop 1 ms)"
  shows "\<not> sublist ''$$'' t \<Longrightarrow>
         strings_ReplaceAll (substitute_above i ms t) [CHR ''$'', char_of (48 + i)] (ms ! i) =
         substitute_above (i - 1) ms t"
proof (induction t rule: induct_list012)
  case 1
  then show ?case by simp
next
  case (2 c)
  then show ?case by simp
next
  case (3 c d t)
  let ?P = "[CHR ''$'', char_of (48 + i)]"
  have nt: "\<not> sublist ''$$'' t" and ndt: "\<not> sublist ''$$'' (d # t)"
    using "3.prems" no_double_tail by blast+
  note IH1 = "3.IH"(1)[OF nt] and IH2 = "3.IH"(2)[OF ndt]
  have step: "is_token (i - 1) ms d \<longleftrightarrow> is_token i ms d \<or> d = char_of (48 + i)"
    using i by (rule is_token_step)
  show ?case
  proof (cases "c = CHR ''$''")
    case False
    then show ?thesis using IH2 by simp
  next
    case c: True
    then have d: "d \<noteq> CHR ''$''" using no_double_head[OF "3.prems"] by simp
    consider (A) "is_token i ms d" | (B) "\<not> is_token i ms d" "d = char_of (48 + i)"
      | (C) "\<not> is_token i ms d" "d \<noteq> char_of (48 + i)" by blast
    then show ?thesis
    proof cases
      case A
      then have k: "1 \<le> token_index d" "token_index d < length ms"
        using i by (auto simp: is_token_def)
      then have "ms ! token_index d \<in> set (drop 1 ms)"
        by (auto simp: in_set_conv_nth intro!: exI[of _ "token_index d - 1"])
      then have "CHR ''$'' \<notin> set (ms ! token_index d)"
        using v by (auto simp: list_all_iff)
      then show ?thesis using A c step IH1 by (simp add: ReplaceAll_skip)
    next
      case B
      have "token_index d = i" using B(2) i by (simp add: token_index_char_of)
      then show ?thesis using B c d step IH1 by (simp add: substitute_above_Cons)
    next
      case C
      then have "\<not> is_token (i - 1) ms d" using step by simp
      then show ?thesis using C c d IH1 by (simp add: substitute_above_Cons)
    qed
  qed
qed

lemma substitute_above_top:
  "length ms \<le> Suc lo \<Longrightarrow> substitute_above lo ms t = t"
  by (induction lo ms t rule: substitute_above.induct) (auto simp: is_token_def)

lemma resolveLoop_eq:
  assumes v: "list_all (\<lambda>v. CHR ''$'' \<notin> set v) (drop 1 ms)" and n: "\<not> sublist ''$$'' t"
  shows "i \<le> 9 \<Longrightarrow> i < length ms \<Longrightarrow>
         resolveLoop ms i (substitute_above i ms t) = substitute_above 0 ms t"
proof (induction i)
  case 0
  then show ?case by simp
next
  case (Suc i)
  have "strings_ReplaceAll (substitute_above (Suc i) ms t)
          (''$'' @ string_of_rune (48 + int (Suc i))) (ms ! Suc i) = substitute_above i ms t"
    using replace_step[OF _ Suc.prems(1,2) v n] placeholder_eq[OF Suc.prems(1)] by simp
  then show ?case using Suc by simp
qed

text \<open>
  C5, as amended. \<open>resolveTarget\<close> runs one \<open>ReplaceAll\<close> per group, from the highest
  group number down to 1. When the pattern has at most nine groups, no captured text
  contains a \<open>$\<close>, and the template has no two consecutive \<open>$\<close>, the result is the
  template with every token \<open>$k\<close>, \<open>1 \<le> k \<le> n\<close>, replaced once by the text of group \<open>k\<close>, and
  with every token whose number exceeds \<open>n\<close> left as it is.
\<close>

theorem resolveTarget_substitutes:
  assumes "length matches \<le> 10"
    and "list_all (\<lambda>v. CHR ''$'' \<notin> set v) (drop 1 matches)"
    and "\<not> sublist ''$$'' target"
  shows "resolveTarget target matches = spec_substitute matches target"
proof (cases "matches = []")
  case True
  then show ?thesis
    by (simp add: resolveTarget_def spec_substitute_def substitute_above_top)
next
  case False
  then have "length matches - 1 \<le> 9" "length matches - 1 < length matches"
    using assms(1) by (auto simp: Suc_le_eq)
  from resolveLoop_eq[OF assms(2,3) this]
  show ?thesis
    by (simp add: resolveTarget_def spec_substitute_def substitute_above_top)
qed

theorem resolveTarget_substitutes_witness:
  "resolveTarget ''/new/$2/$1'' [''/old/foo/bar'', ''foo'', ''bar''] = ''/new/bar/foo''
   \<and> resolveTarget ''/new/$3/$1'' [''/old/foo/bar'', ''foo'', ''bar''] = ''/new/$3/foo''"
proof -
  have h: "length [''/old/foo/bar'', ''foo'', ''bar''] \<le> 10"
    "list_all (\<lambda>v. CHR ''$'' \<notin> set v) (drop 1 [''/old/foo/bar'', ''foo'', ''bar''])"
    "\<not> sublist ''$$'' ''/new/$2/$1''" "\<not> sublist ''$$'' ''/new/$3/$1''"
    by (simp_all add: sublist_Cons_right)
  have s: "spec_substitute [''/old/foo/bar'', ''foo'', ''bar''] ''/new/$2/$1'' = ''/new/bar/foo''"
    "spec_substitute [''/old/foo/bar'', ''foo'', ''bar''] ''/new/$3/$1'' = ''/new/$3/foo''"
    by code_simp+
  show ?thesis
    using resolveTarget_substitutes[OF h(1,2,3)] resolveTarget_substitutes[OF h(1,2,4)] s
    by simp
qed

text \<open>
  C5 as stated fails without these conditions, because each pass reads the output of the
  passes before it. A captured text that contains \<open>$1\<close> is substituted a second time; an
  empty capture after a \<open>$\<close> lets a new token form (\<open>$$21\<close> becomes \<open>$1\<close>, then group 1);
  and with ten groups the pass for group 10 replaces \<open>$:\<close>, the character after \<open>9\<close>.
\<close>

theorem resolveTarget_counterexample:
  "resolveTarget ''/new/$2/$1'' [''/old/a/$1'', ''a'', ''$1''] = ''/new/a/a''
   \<and> spec_substitute [''/old/a/$1'', ''a'', ''$1''] ''/new/$2/$1'' = ''/new/$1/a''
   \<and> resolveTarget ''/x$$21'' [''/p/a/'', ''a'', []] = ''/xa''
   \<and> spec_substitute [''/p/a/'', ''a'', []] ''/x$$21'' = ''/x$1''
   \<and> resolveTarget ''/t$:'' [''m'', ''a'', ''b'', ''c'', ''d'', ''e'', ''f'', ''g'', ''h'', ''i'', ''j'']
       = ''/tj''
   \<and> spec_substitute [''m'', ''a'', ''b'', ''c'', ''d'', ''e'', ''f'', ''g'', ''h'', ''i'', ''j''] ''/t$:''
       = ''/t$:''"
  by code_simp

section \<open>Independence of the insertion order\<close>

lemma keys_radix_Insert: "set (map fst (radix_Insert t k v)) = insert k (set (map fst t))"
  by (induction t k v rule: radix_Insert.induct) auto

lemma fst_set_radix_Insert: "fst ` set (radix_Insert t k v) = insert k (fst ` set t)"
  using keys_radix_Insert[of t k v] by simp

lemma keys_sorted_Insert: "keys_sorted t \<Longrightarrow> keys_sorted (radix_Insert t k v)"
proof (induction t)
  case Nil
  then show ?case by (simp add: keys_sorted_def)
next
  case (Cons e t)
  obtain k' v' where e: "e = (k', v')" by (cases e)
  have t: "keys_sorted t" and gt: "\<forall>x\<in>fst ` set t. k' < x"
    using Cons.prems by (auto simp: keys_sorted_def e)
  show ?case
  proof (cases "k = k'")
    case True
    then show ?thesis using Cons.prems by (simp add: keys_sorted_def e)
  next
    case False
    show ?thesis
    proof (cases "k < k'")
      case True
      then show ?thesis using Cons.prems gt False
        by (auto simp: keys_sorted_def e)
    next
      case nl: False
      then have "k' < k" using False by auto
      moreover have "keys_sorted (radix_Insert t k v)" using Cons.IH t by simp
      ultimately show ?thesis using gt nl False fst_set_radix_Insert[of t k v]
        by (auto simp: keys_sorted_def e)
    qed
  qed
qed

lemma Get_None_if_below:
  "\<forall>x\<in>fst ` set t. k < x \<Longrightarrow> radix_Get t k = None"
  by (auto simp: radix_Get_def map_of_eq_None_iff)

lemma flat_Cons: "flat ((k, b) # t) = map (Pair k) (redirects b) @ flat t"
  by (simp add: flat_def)

lemma flat_Insert_new:
  "keys_sorted t \<Longrightarrow> radix_Get t k = None \<Longrightarrow>
   mset (flat (radix_Insert t k b)) = mset (flat t) + mset (map (Pair k) (redirects b))"
proof (induction t)
  case Nil
  then show ?case by (simp add: flat_def)
next
  case (Cons e t)
  obtain k' v' where e: "e = (k', v')" by (cases e)
  have ne: "k \<noteq> k'" using Cons.prems(2) by (auto simp: radix_Get_def e)
  then have "radix_Get t k = None" using Cons.prems(2) by (simp add: radix_Get_def e)
  moreover have "keys_sorted t" using Cons.prems(1) by (simp add: keys_sorted_def)
  ultimately have "mset (flat (radix_Insert t k b)) = mset (flat t) + mset (map (Pair k) (redirects b))"
    by (rule Cons.IH[rotated])
  then show ?case using ne by (simp add: e flat_Cons)
qed

lemma flat_Insert_old:
  "keys_sorted t \<Longrightarrow> radix_Get t k = Some b0 \<Longrightarrow> redirects b = redirects b0 @ [cr] \<Longrightarrow>
   mset (flat (radix_Insert t k b)) = add_mset (k, cr) (mset (flat t))"
proof (induction t)
  case Nil
  then show ?case by (simp add: radix_Get_def)
next
  case (Cons e t)
  obtain k' v' where e: "e = (k', v')" by (cases e)
  have t: "keys_sorted t" and gt: "\<forall>x\<in>fst ` set t. k' < x"
    using Cons.prems(1) by (auto simp: keys_sorted_def e)
  show ?case
  proof (cases "k = k'")
    case True
    then have "v' = b0" using Cons.prems(2) by (simp add: radix_Get_def e)
    then show ?thesis using True Cons.prems(3) by (simp add: e flat_Cons)
  next
    case False
    then have g: "radix_Get t k = Some b0" using Cons.prems(2) by (simp add: radix_Get_def e)
    have "\<not> k < k'"
    proof
      assume "k < k'"
      then have "\<forall>x\<in>fst ` set t. k < x" using gt by auto
      then have "radix_Get t k = None" by (rule Get_None_if_below)
      with g show False by simp
    qed
    moreover have "mset (flat (radix_Insert t k b)) = add_mset (k, cr) (mset (flat t))"
      using t g Cons.prems(3) by (rule Cons.IH)
    ultimately show ?thesis using False by (simp add: e flat_Cons)
  qed
qed

lemma bucketInsert_entries:
  assumes "keys_sorted tree" "bucketInsert (tree, root) pfx cr = (tree', root')"
  shows "keys_sorted tree' \<and> entries tree' root' = add_mset (pfx, cr) (entries tree root)"
proof (cases "pfx = []")
  case True
  then show ?thesis using assms by (auto simp: bucketInsert_def entries_def)
next
  case False
  show ?thesis
  proof (cases "radix_Get tree pfx")
    case None
    then show ?thesis
      using False assms flat_Insert_new[OF assms(1) None, of "\<lparr>redirects = [cr]\<rparr>"]
      by (auto simp: bucketInsert_def entries_def keys_sorted_Insert)
  next
    case (Some b0)
    then show ?thesis
      using False assms
        flat_Insert_old[OF assms(1) Some, of "b0\<lparr>redirects := redirects b0 @ [cr]\<rparr>" cr]
      by (auto simp: bucketInsert_def entries_def keys_sorted_Insert)
  qed
qed


lemma Insert_entries:
  fixes L rt r
  defines "rt' \<equiv> snd (RedirectTree_Insert L rt r)"
  defines "pe \<equiv> (\<lambda>r. (extractRegexPrefix L (Source r), mk_compiled L r))"
  assumes s: "keys_sorted (RedirectTree.regex rt)" "keys_sorted (RedirectTree.regexHost rt)"
  shows "keys_sorted (RedirectTree.regex rt')" "keys_sorted (RedirectTree.regexHost rt')"
    "entries (RedirectTree.regex rt') (regexRoot rt') =
       entries (RedirectTree.regex rt) (regexRoot rt) + mset (map pe (regex_rules L ''REGEX'' [r]))"
    "entries (RedirectTree.regexHost rt') (regexHostRoot rt') =
       entries (RedirectTree.regexHost rt) (regexHostRoot rt)
       + mset (map pe (regex_rules L ''REGEX_HOST'' [r]))"
proof -
  consider (bh) "Redirect.Type r = ''BASIC_HOST''" | (b) "Redirect.Type r = ''BASIC''"
    | (rh) "Redirect.Type r = ''REGEX_HOST''" | (re) "Redirect.Type r = ''REGEX''"
    | (other) "Redirect.Type r \<notin> {''BASIC_HOST'', ''BASIC'', ''REGEX_HOST'', ''REGEX''}"
    by auto
  then have "keys_sorted (RedirectTree.regex rt') \<and> keys_sorted (RedirectTree.regexHost rt') \<and>
    entries (RedirectTree.regex rt') (regexRoot rt') =
       entries (RedirectTree.regex rt) (regexRoot rt) + mset (map pe (regex_rules L ''REGEX'' [r])) \<and>
    entries (RedirectTree.regexHost rt') (regexHostRoot rt') =
       entries (RedirectTree.regexHost rt) (regexHostRoot rt)
       + mset (map pe (regex_rules L ''REGEX_HOST'' [r]))"
  proof cases
    case bh
    then show ?thesis using s
      by (simp add: rt'_def RedirectTree_Insert_def RedirectTypeBasicHost_def regex_rules_def)
  next
    case b
    then show ?thesis using s
      by (simp add: rt'_def RedirectTree_Insert_def RedirectTypeBasicHost_def
          RedirectTypeBasic_def regex_rules_def)
  next
    case other
    then show ?thesis using s
      by (simp add: rt'_def RedirectTree_Insert_def RedirectTypeBasicHost_def
          RedirectTypeBasic_def RedirectTypeRegex_def RedirectTypeRegexHost_def regex_rules_def)
  next
    case rh
    show ?thesis
    proof (cases "regexp_Compile L (Source r)")
      case (Inl err)
      then show ?thesis using s rh
        by (simp add: rt'_def RedirectTree_Insert_def RedirectTypeBasicHost_def
            RedirectTypeBasic_def RedirectTypeRegex_def RedirectTypeRegexHost_def regex_rules_def)
    next
      case (Inr c)
      obtain tree root where bi:
        "bucketInsert (RedirectTree.regexHost rt, regexHostRoot rt)
           (extractRegexPrefix L (Source r)) \<lparr>Redirect = r, regex = Some c\<rparr> = (tree, root)"
        by (cases "bucketInsert (RedirectTree.regexHost rt, regexHostRoot rt)
           (extractRegexPrefix L (Source r)) \<lparr>Redirect = r, regex = Some c\<rparr>")
      from bucketInsert_entries[OF s(2) bi] bi Inr rh s(1) show ?thesis
        by (simp add: rt'_def RedirectTree_Insert_def RedirectTypeBasicHost_def
            RedirectTypeBasic_def RedirectTypeRegex_def RedirectTypeRegexHost_def regex_rules_def
            pe_def mk_compiled_def)
    qed
  next
    case re
    show ?thesis
    proof (cases "regexp_Compile L (Source r)")
      case (Inl err)
      then show ?thesis using s re
        by (simp add: rt'_def RedirectTree_Insert_def RedirectTypeBasicHost_def
            RedirectTypeBasic_def RedirectTypeRegex_def RedirectTypeRegexHost_def regex_rules_def)
    next
      case (Inr c)
      obtain tree root where bi:
        "bucketInsert (RedirectTree.regex rt, regexRoot rt)
           (extractRegexPrefix L (Source r)) \<lparr>Redirect = r, regex = Some c\<rparr> = (tree, root)"
        by (cases "bucketInsert (RedirectTree.regex rt, regexRoot rt)
           (extractRegexPrefix L (Source r)) \<lparr>Redirect = r, regex = Some c\<rparr>")
      from bucketInsert_entries[OF s(1) bi] bi Inr re s(2) show ?thesis
        by (simp add: rt'_def RedirectTree_Insert_def RedirectTypeBasicHost_def
            RedirectTypeBasic_def RedirectTypeRegex_def RedirectTypeRegexHost_def regex_rules_def
            pe_def mk_compiled_def)
    qed
  qed
  then show "keys_sorted (RedirectTree.regex rt')" "keys_sorted (RedirectTree.regexHost rt')"
    "entries (RedirectTree.regex rt') (regexRoot rt') =
       entries (RedirectTree.regex rt) (regexRoot rt) + mset (map pe (regex_rules L ''REGEX'' [r]))"
    "entries (RedirectTree.regexHost rt') (regexHostRoot rt') =
       entries (RedirectTree.regexHost rt) (regexHostRoot rt)
       + mset (map pe (regex_rules L ''REGEX_HOST'' [r]))"
    by blast+
qed

lemma regex_rules_Cons:
  "regex_rules L ty (r # rs) = regex_rules L ty [r] @ regex_rules L ty rs"
  by (simp add: regex_rules_def)

lemma insertAll_entries:
  assumes "keys_sorted (RedirectTree.regex rt)" "keys_sorted (RedirectTree.regexHost rt)"
  shows "entries (RedirectTree.regex (insertAll L rt rs)) (regexRoot (insertAll L rt rs)) =
       entries (RedirectTree.regex rt) (regexRoot rt)
       + mset (map (\<lambda>r. (extractRegexPrefix L (Source r), mk_compiled L r))
                 (regex_rules L ''REGEX'' rs))
     \<and> entries (RedirectTree.regexHost (insertAll L rt rs)) (regexHostRoot (insertAll L rt rs)) =
       entries (RedirectTree.regexHost rt) (regexHostRoot rt)
       + mset (map (\<lambda>r. (extractRegexPrefix L (Source r), mk_compiled L r))
                 (regex_rules L ''REGEX_HOST'' rs))"
  using assms
proof (induction rs arbitrary: rt)
  case Nil
  then show ?case by (simp add: insertAll_def regex_rules_def)
next
  case (Cons r rs)
  note I = Insert_entries[OF Cons.prems, of L r]
  from Cons.IH[OF I(1,2)] I(3,4) show ?case
    by (simp add: insertAll_Cons regex_rules_Cons[of _ _ r rs])
qed

lemma entries_New:
  "entries (RedirectTree.regex NewRedirectTreeMatcher) (regexRoot NewRedirectTreeMatcher) = {#}"
  "entries (RedirectTree.regexHost NewRedirectTreeMatcher) (regexHostRoot NewRedirectTreeMatcher) = {#}"
  "keys_sorted (RedirectTree.regex NewRedirectTreeMatcher)"
  "keys_sorted (RedirectTree.regexHost NewRedirectTreeMatcher)"
  by (simp_all add: NewRedirectTreeMatcher_def radix_New_def entries_def flat_def keys_sorted_def)

lemma mset_pair_filter:
  "image_mset snd (filter_mset (\<lambda>(k, cr). Q k) (mset (map (Pair k) xs))) =
     (if Q k then mset xs else {#})"
  by (induction xs) auto

lemma mset_bucket_filter:
  "mset (concat (map (redirects \<circ> snd) (filter (\<lambda>(k, b). Q k) tree))) =
   image_mset snd (filter_mset (\<lambda>(k, cr). Q k) (mset (flat tree)))"
proof (induction tree)
  case Nil
  then show ?case by (simp add: flat_def)
next
  case (Cons e tree)
  obtain k b where e: "e = (k, b)" by (cases e)
  show ?case using Cons.IH mset_pair_filter[of Q k "redirects b"]
    by (simp add: e flat_Cons del: mset_map)
qed


lemma mset_candidates:
  assumes "buckets_ok tree"
  shows "mset (candidates tree root input) =
         image_mset snd (filter_mset (\<lambda>(k, cr). prefix k input) (entries tree root))"
proof -
  have "filter (\<lambda>(k, b). k \<noteq> [] \<and> prefix k input) tree = filter (\<lambda>(k, b). prefix k input) tree"
    using assms by (intro filter_cong) (auto simp: buckets_ok_def list_all_iff)
  moreover have "image_mset snd (filter_mset (\<lambda>(k, cr). prefix k input) (mset (map (Pair []) root)))
      = mset root"
    using mset_pair_filter[of "\<lambda>k. prefix k input" "[]" root] by simp
  ultimately show ?thesis
    using mset_bucket_filter[of "\<lambda>k. prefix k input" tree]
    by (simp add: candidates_built[OF assms] entries_def del: mset_map)
qed

lemma sorted_perm_unique:
  fixes f :: "'a \<Rightarrow> nat"
  assumes "sorted_wrt (\<lambda>a b. f b \<le> f a) xs" "sorted_wrt (\<lambda>a b. f b \<le> f a) ys"
    and "mset xs = mset ys" "inj_on f (set xs)"
  shows "xs = ys"
  using assms
proof (induction xs arbitrary: ys)
  case Nil
  then show ?case by simp
next
  case (Cons x xs)
  then obtain y ys' where ys: "ys = y # ys'" by (cases ys) auto
  have se: "set (x # xs) = set (y # ys')"
    using Cons.prems(3) unfolding ys by (rule mset_eq_setD)
  have "f x \<le> f y"
    using se Cons.prems(2) unfolding ys by (cases "x = y") auto
  moreover have "f y \<le> f x"
    using se Cons.prems(1) by (cases "x = y") auto
  ultimately have "f x = f y" by simp
  moreover have "y \<in> set (x # xs)" using se by simp
  ultimately have xy: "x = y"
    using Cons.prems(4) by (auto dest: inj_onD)
  then have "mset xs = mset ys'" using Cons.prems(3) by (simp add: ys)
  moreover have "inj_on f (set xs)" using Cons.prems(4) by (simp add: inj_on_def)
  ultimately have "xs = ys'"
    using Cons.prems(1,2) by (intro Cons.IH) (simp_all add: ys)
  with xy show ?case by (simp add: ys)
qed

lemma Insert_Get_basic:
  "radix_Get (RedirectTree.basic (snd (RedirectTree_Insert L rt r))) k =
     (if Redirect.Type r = ''BASIC'' \<and> Source r = k then Some \<lparr>Redirect = r, regex = None\<rparr>
      else radix_Get (RedirectTree.basic rt) k)"
  "radix_Get (RedirectTree.basicHost (snd (RedirectTree_Insert L rt r))) k =
     (if Redirect.Type r = ''BASIC_HOST'' \<and> Source r = k then Some \<lparr>Redirect = r, regex = None\<rparr>
      else radix_Get (RedirectTree.basicHost rt) k)"
  by (auto simp: RedirectTree_Insert_def RedirectTypeBasicHost_def RedirectTypeBasic_def
      RedirectTypeRegex_def RedirectTypeRegexHost_def radix_Get_Insert Let_def
      split: sum.splits prod.splits)

lemma insertAll_snoc:
  "insertAll L rt (rs @ [r]) = snd (RedirectTree_Insert L (insertAll L rt rs) r)"
  by (simp add: insertAll_def)

lemma insertAll_Get_basic:
  assumes "inj_on Source (set (exact_rules ''BASIC'' rs))"
  shows "radix_Get (RedirectTree.basic (insertAll L NewRedirectTreeMatcher rs)) k = Some cr \<longleftrightarrow>
         (\<exists>r\<in>set rs. Redirect.Type r = ''BASIC'' \<and> Source r = k \<and> cr = \<lparr>Redirect = r, regex = None\<rparr>)"
  using assms
proof (induction rs rule: rev_induct)
  case Nil
  then show ?case
    by (simp add: insertAll_def NewRedirectTreeMatcher_def radix_New_def radix_Get_def)
next
  case (snoc r rs)
  have "inj_on Source (set (exact_rules ''BASIC'' rs))"
    using snoc.prems by (auto simp: exact_rules_def inj_on_def)
  note IH = snoc.IH[OF this]
  show ?case
  proof (cases "Redirect.Type r = ''BASIC'' \<and> Source r = k")
    case True
    have "r' = r" if "r' \<in> set rs" "Redirect.Type r' = ''BASIC''" "Source r' = k" for r'
      using snoc.prems that True by (auto simp: exact_rules_def inj_on_def)
    then show ?thesis using True
      by (auto simp: insertAll_snoc Insert_Get_basic)
  next
    case False
    then show ?thesis using IH
      by (auto simp: insertAll_snoc Insert_Get_basic)
  qed
qed

lemma insertAll_Get_basicHost:
  assumes "inj_on Source (set (exact_rules ''BASIC_HOST'' rs))"
  shows "radix_Get (RedirectTree.basicHost (insertAll L NewRedirectTreeMatcher rs)) k = Some cr \<longleftrightarrow>
         (\<exists>r\<in>set rs. Redirect.Type r = ''BASIC_HOST'' \<and> Source r = k \<and>
                     cr = \<lparr>Redirect = r, regex = None\<rparr>)"
  using assms
proof (induction rs rule: rev_induct)
  case Nil
  then show ?case
    by (simp add: insertAll_def NewRedirectTreeMatcher_def radix_New_def radix_Get_def)
next
  case (snoc r rs)
  have "inj_on Source (set (exact_rules ''BASIC_HOST'' rs))"
    using snoc.prems by (auto simp: exact_rules_def inj_on_def)
  note IH = snoc.IH[OF this]
  show ?case
  proof (cases "Redirect.Type r = ''BASIC_HOST'' \<and> Source r = k")
    case True
    have "r' = r" if "r' \<in> set rs" "Redirect.Type r' = ''BASIC_HOST''" "Source r' = k" for r'
      using snoc.prems that True by (auto simp: exact_rules_def inj_on_def)
    then show ?thesis using True
      by (auto simp: insertAll_snoc Insert_Get_basic)
  next
    case False
    then show ?thesis using IH
      by (auto simp: insertAll_snoc Insert_Get_basic)
  qed
qed

lemma option_eqI: "(\<And>v. a = Some v \<longleftrightarrow> b = Some v) \<Longrightarrow> a = b"
  by (cases a; cases b) auto

lemma sorted_candidates_eq:
  fixes L ty rs rs'
  defines "pe \<equiv> (\<lambda>r. (extractRegexPrefix L (Source r), mk_compiled L r))"
  assumes ok: "sort_ok L"
    and e: "entries tree root = mset (map pe (regex_rules L ty rs))"
    and e': "entries tree' root' = mset (map pe (regex_rules L ty rs'))"
    and b: "buckets_ok tree" "buckets_ok tree'"
    and p: "mset rs = mset rs'"
    and inj: "inj_on (\<lambda>r. length (Source r)) (set (regex_rules L ty rs))"
  shows "sortBySourceLength L (candidates tree root input) =
         sortBySourceLength L (candidates tree' root' input)"
proof -
  let ?f = "\<lambda>c. length (Source (Redirect c))"
  let ?S = "sortBySourceLength L (candidates tree root input)"
  let ?S' = "sortBySourceLength L (candidates tree' root' input)"
  have "mset (regex_rules L ty rs) = mset (regex_rules L ty rs')"
    using p by (simp add: regex_rules_def)
  then have "entries tree root = entries tree' root'"
    unfolding e e' by simp
  then have m: "mset (candidates tree root input) = mset (candidates tree' root' input)"
    by (simp add: mset_candidates b)
  have S: "mset ?S = mset (candidates tree root input)" "sorted_wrt (\<lambda>a b. ?f b \<le> ?f a) ?S"
    and S': "mset ?S' = mset (candidates tree' root' input)" "sorted_wrt (\<lambda>a b. ?f b \<le> ?f a) ?S'"
    using ok unfolding sort_ok_def by blast+
  have "set ?S = set (candidates tree root input)" using S(1) by (rule mset_eq_setD)
  also have "\<dots> \<subseteq> snd ` set_mset (entries tree root)"
    by (auto simp: mset_candidates[OF b(1)] simp flip: set_mset_mset)
  also have "\<dots> \<subseteq> mk_compiled L ` set (regex_rules L ty rs)"
    unfolding e by (auto simp: pe_def)
  finally have sub: "set ?S \<subseteq> mk_compiled L ` set (regex_rules L ty rs)" .
  have "inj_on ?f (set ?S)"
  proof (rule inj_onI)
    fix c c' assume c: "c \<in> set ?S" "c' \<in> set ?S" and eq: "?f c = ?f c'"
    from c sub obtain r r' where r: "r \<in> set (regex_rules L ty rs)" "c = mk_compiled L r"
      and r': "r' \<in> set (regex_rules L ty rs)" "c' = mk_compiled L r'"
      by blast
    from eq have "length (Source r) = length (Source r')"
      by (simp add: r r' mk_compiled_def)
    with inj r(1) r'(1) have "r = r'" by (auto dest: inj_onD)
    then show "c = c'" by (simp add: r r')
  qed
  with S S' m show ?thesis
    by (intro sorted_perm_unique[of ?f]) simp_all
qed

text \<open>
  C7, as amended. Let a rule list be given in which no two BASIC rules have the same
  source, no two BASIC_HOST rules have the same source, and among the REGEX rules that
  compile, and among the REGEX_HOST rules that compile, no two have sources of the same
  length. Then the matcher built by inserting the rules in the given order and the matcher
  built by inserting any permutation of them return the same result of \<open>Match\<close> for every
  host and uri.
\<close>

theorem Match_insertion_order:
  assumes ok: "sort_ok L" and p: "mset rs = mset rs'"
    and ibh: "inj_on Source (set (exact_rules ''BASIC_HOST'' rs))"
    and ib: "inj_on Source (set (exact_rules ''BASIC'' rs))"
    and irh: "inj_on (\<lambda>r. length (Source r)) (set (regex_rules L ''REGEX_HOST'' rs))"
    and ir: "inj_on (\<lambda>r. length (Source r)) (set (regex_rules L ''REGEX'' rs))"
  shows "RedirectTree_Match L (insertAll L NewRedirectTreeMatcher rs) host uri =
         RedirectTree_Match L (insertAll L NewRedirectTreeMatcher rs') host uri"
proof -
  let ?rt = "insertAll L NewRedirectTreeMatcher rs"
  let ?rt' = "insertAll L NewRedirectTreeMatcher rs'"
  have se: "set rs = set rs'" using p by (rule mset_eq_setD)
  have b: "built_ok ?rt" "built_ok ?rt'" by (rule built_ok_insertAll_New)+
  have ibh': "inj_on Source (set (exact_rules ''BASIC_HOST'' rs'))"
    and ib': "inj_on Source (set (exact_rules ''BASIC'' rs'))"
    using ibh ib se by (simp_all add: exact_rules_def)
  have g1: "radix_Get (RedirectTree.basicHost ?rt) k = radix_Get (RedirectTree.basicHost ?rt') k"
    for k
    by (rule option_eqI)
      (simp add: insertAll_Get_basicHost[OF ibh] insertAll_Get_basicHost[OF ibh'] se)
  have g2: "radix_Get (RedirectTree.basic ?rt) k = radix_Get (RedirectTree.basic ?rt') k" for k
    by (rule option_eqI) (simp add: insertAll_Get_basic[OF ib] insertAll_Get_basic[OF ib'] se)
  note E = insertAll_entries[OF entries_New(3,4), of L rs, unfolded entries_New(1,2)]
  note E' = insertAll_entries[OF entries_New(3,4), of L rs', unfolded entries_New(1,2)]
  have s1: "sortBySourceLength L (candidates (RedirectTree.regexHost ?rt) (regexHostRoot ?rt) i) =
        sortBySourceLength L (candidates (RedirectTree.regexHost ?rt') (regexHostRoot ?rt') i)" for i
    using E E' b by (intro sorted_candidates_eq[OF ok _ _ _ _ p irh]) (simp_all add: built_ok_def)
  have s2: "sortBySourceLength L (candidates (RedirectTree.regex ?rt) (regexRoot ?rt) i) =
        sortBySourceLength L (candidates (RedirectTree.regex ?rt') (regexRoot ?rt') i)" for i
    using E E' b by (intro sorted_candidates_eq[OF ok _ _ _ _ p ir]) (simp_all add: built_ok_def)
  show ?thesis
    unfolding Match_eq[OF ok b(1)] Match_eq[OF ok b(2)] g1 g2 s1 s2 ..
qed

theorem Match_insertion_order_witness:
  "RedirectTree_Match sample_lib
     (insertAll sample_lib NewRedirectTreeMatcher [rule_host, rule_basic, rule_api, rule_xml])
     ''example.com'' ''/api/sitemap.xml''
   = RedirectTree_Match sample_lib
     (insertAll sample_lib NewRedirectTreeMatcher [rule_xml, rule_api, rule_basic, rule_host])
     ''example.com'' ''/api/sitemap.xml''
   \<and> RedirectTree_Match sample_lib
     (insertAll sample_lib NewRedirectTreeMatcher [rule_xml, rule_api, rule_basic, rule_host])
     ''example.com'' ''/api/sitemap.xml'' = Inr (Some rule_xml, ''/sitemap'')"
proof -
  let ?rs = "[rule_host, rule_basic, rule_api, rule_xml]"
  let ?rs' = "[rule_xml, rule_api, rule_basic, rule_host]"
  have p: "mset ?rs = mset ?rs'" by simp
  have c: "\<not> isl (regexp_Compile sample_lib (Source rule_api))"
    "\<not> isl (regexp_Compile sample_lib (Source rule_xml))"
    by (simp_all add: sample_lib_def sample_Compile_def rule_api_def rule_xml_def xml_pattern_def)
  have i1: "inj_on Source (set (exact_rules ''BASIC_HOST'' ?rs))"
    and i2: "inj_on Source (set (exact_rules ''BASIC'' ?rs))"
    by (simp_all add: exact_rules_def rule_host_def rule_basic_def rule_api_def rule_xml_def)
  have i3: "inj_on (\<lambda>r. length (Source r)) (set (regex_rules sample_lib ''REGEX_HOST'' ?rs))"
    by (simp add: regex_rules_def rule_host_def rule_basic_def rule_api_def rule_xml_def)
  have "regex_rules sample_lib ''REGEX'' ?rs = [rule_api, rule_xml]"
    using c by (simp add: regex_rules_def)
      (simp add: rule_host_def rule_basic_def rule_api_def rule_xml_def)
  moreover have "length (Source rule_api) \<noteq> length (Source rule_xml)"
    by (simp add: rule_api_def rule_xml_def xml_pattern_def)
  ultimately have i4: "inj_on (\<lambda>r. length (Source r)) (set (regex_rules sample_lib ''REGEX'' ?rs))"
    by (auto simp: inj_on_def)
  have v: "RedirectTree_Match sample_lib (insertAll sample_lib NewRedirectTreeMatcher ?rs')
     ''example.com'' ''/api/sitemap.xml'' = Inr (Some rule_xml, ''/sitemap'')"
    by code_simp
  from Match_insertion_order[OF sort_ok_sample p i1 i2 i3 i4, of "''example.com''" "''/api/sitemap.xml''"] v
  show ?thesis by simp
qed

text \<open>
  C7 as stated fails for rules that tie. Of two BASIC rules with the same source the one
  inserted last replaces the other in the index; of two REGEX rules with equally long
  sources that are candidates for the same input, the sort leaves the one collected first
  in front. In both cases swapping the two rules changes what \<open>Match\<close> returns.
\<close>

theorem insertion_order_counterexample:
  "mset [rule_dup1, rule_dup2] = mset [rule_dup2, rule_dup1]
   \<and> RedirectTree_Match sample_lib (insertAll sample_lib NewRedirectTreeMatcher [rule_dup1, rule_dup2])
       ''example.com'' ''/dup'' = Inr (Some rule_dup2, ''/second'')
   \<and> RedirectTree_Match sample_lib (insertAll sample_lib NewRedirectTreeMatcher [rule_dup2, rule_dup1])
       ''example.com'' ''/dup'' = Inr (Some rule_dup1, ''/first'')
   \<and> RedirectTree_Match sample_lib (insertAll sample_lib NewRedirectTreeMatcher [rule_api, rule_api2])
       ''example.com'' ''/api'' = Inr (Some rule_api, ''/v'')
   \<and> RedirectTree_Match sample_lib (insertAll sample_lib NewRedirectTreeMatcher [rule_api2, rule_api])
       ''example.com'' ''/api'' = Inr (Some rule_api2, ''/other'')"
proof -
  have "mset [rule_dup1, rule_dup2] = mset [rule_dup2, rule_dup1]" by simp
  moreover have
    "RedirectTree_Match sample_lib (insertAll sample_lib NewRedirectTreeMatcher [rule_dup1, rule_dup2])
       ''example.com'' ''/dup'' = Inr (Some rule_dup2, ''/second'')"
    "RedirectTree_Match sample_lib (insertAll sample_lib NewRedirectTreeMatcher [rule_dup2, rule_dup1])
       ''example.com'' ''/dup'' = Inr (Some rule_dup1, ''/first'')"
    "RedirectTree_Match sample_lib (insertAll sample_lib NewRedirectTreeMatcher [rule_api, rule_api2])
       ''example.com'' ''/api'' = Inr (Some rule_api, ''/v'')"
    "RedirectTree_Match sample_lib (insertAll sample_lib NewRedirectTreeMatcher [rule_api2, rule_api])
       ''example.com'' ''/api'' = Inr (Some rule_api2, ''/other'')"
    by code_simp+
  ultimately show ?thesis by blast
qed

section \<open>The extracted prefix and what the pattern matches\<close>

lemma span_append:
  assumes "k = i + length a \<and> take (length a) (drop i s) = a"
    and "j = k + length b \<and> take (length b) (drop k s) = b"
  shows "j = i + length (a @ b) \<and> take (length (a @ b)) (drop i s) = a @ b"
proof -
  have "take (length a + length b) (drop i s) =
        take (length a) (drop i s) @ take (length b) (drop (length a) (drop i s))"
    by (simp add: take_add)
  then show ?thesis using assms by (simp add: add.commute)
qed

lemma exact_span:
  shows "rmatch X s re i j \<Longrightarrow> exact re \<Longrightarrow>
           j = i + length (extractLiteralPrefix re) \<and>
           take (length (extractLiteralPrefix re)) (drop i s) = extractLiteralPrefix re"
    and "rmatch_seq X s rs i j \<Longrightarrow> exact_seq rs \<Longrightarrow>
           j = i + length (concatLoop rs) \<and>
           take (length (concatLoop rs)) (drop i s) = concatLoop rs"
proof (induction rule: rmatch_rmatch_seq.inducts)
  case (m_open op fl subs rn mi ma cp nm i j)
  then show ?case by (auto simp: left_open_def)
next
  case (seq_cons r i k rs j)
  obtain op fl ss rn mi ma cp nm where r: "r = Regexp op fl ss rn mi ma cp nm" by (cases r)
  have "exact r \<and> exact_seq rs \<and> concatLoop (r # rs) = extractLiteralPrefix r @ concatLoop rs"
    using seq_cons.prems by (auto simp: r split: if_splits list.splits)
  then have e: "exact r" "exact_seq rs"
    and c: "concatLoop (r # rs) = extractLiteralPrefix r @ concatLoop rs" by blast+
  have a: "k = i + length (extractLiteralPrefix r) \<and>
           take (length (extractLiteralPrefix r)) (drop i s) = extractLiteralPrefix r"
    using seq_cons e(1) by blast
  have b: "j = k + length (concatLoop rs) \<and> take (length (concatLoop rs)) (drop k s) = concatLoop rs"
    using seq_cons e(2) by blast
  show ?case unfolding c using a b by (rule span_append)
qed simp_all

lemma prefix_span:
  assumes "k = i + length a \<and> take (length a) (drop i s) = a" "prefix b (drop k s)"
  shows "prefix (a @ b) (drop i s)"
proof -
  have "take (length a) (drop i s) @ drop (length a) (drop i s) = drop i s"
    by (rule append_take_drop_id)
  then have "drop i s = a @ drop k s" using assms(1) by (simp add: add.commute)
  then show ?thesis using assms(2) by simp
qed

lemma guarded_prefix:
  shows "rmatch X s re i j \<Longrightarrow> guarded re \<Longrightarrow> prefix (extractLiteralPrefix re) (drop i s)"
    and "rmatch_seq X s rs i j \<Longrightarrow> guarded_seq rs \<Longrightarrow> prefix (concatLoop rs) (drop i s)"
proof (induction rule: rmatch_rmatch_seq.inducts)
  case (m_literal fl i rn subs mi ma cp nm)
  have "prefix (take (length (string_of_runes rn)) (drop i s)) (drop i s)"
    by (rule take_is_prefix)
  then show ?case using m_literal by simp
next
  case (m_open op fl subs rn mi ma cp nm i j)
  then show ?case by (cases op) (auto simp: left_open_def)
next
  case (seq_cons r i k rs j)
  obtain op fl ss rn mi ma cp nm where r: "r = Regexp op fl ss rn mi ma cp nm" by (cases r)
  have "(exact r \<and> guarded_seq rs \<and>
         concatLoop (r # rs) = extractLiteralPrefix r @ concatLoop rs)
        \<or> concatLoop (r # rs) = []"
    using seq_cons.prems by (auto simp: r Let_def split: if_splits list.splits)
  then consider (go) "exact r" "guarded_seq rs"
        "concatLoop (r # rs) = extractLiteralPrefix r @ concatLoop rs"
    | (stop) "concatLoop (r # rs) = []"
    by blast
  then show ?case
  proof cases
    case go
    have "k = i + length (extractLiteralPrefix r) \<and>
           take (length (extractLiteralPrefix r)) (drop i s) = extractLiteralPrefix r"
      using seq_cons go(1) exact_span(1)[of X s r i k] by blast
    moreover have "prefix (concatLoop rs) (drop k s)" using seq_cons go(2) by blast
    ultimately show ?thesis unfolding go(3) by (rule prefix_span)
  next
    case stop
    then show ?thesis by simp
  qed
qed simp_all


lemma rmatch_literal:
  assumes "list_all (\<lambda>c. (of_char c :: nat) < 128) t" "i \<le> length s"
    and "take (length t) (drop i s) = t" "j = i + length t"
  shows "rmatch X s (literal t) i j"
proof -
  have "string_of_runes (map of_char t) = t"
    using assms(1) by (rule string_of_runes_literal)
  then show ?thesis
    unfolding literal_def assms(4)
    using m_literal[of syntax_Perl i s "map of_char t" X "[]" 0 0 0 "[]"] assms(2,3)
    by (simp add: syntax_Perl_def)
qed

lemma rmatch_tree_old: "rmatch X ''/old/foo/bar'' tree_old 0 9"
  unfolding tree_old_def
  apply (rule m_concat)
  apply (rule seq_cons[of _ _ _ 0 5])
   apply (rule rmatch_literal; simp)
  apply (rule seq_cons[of _ _ _ 5 8])
   apply (rule m_capture)
   apply (rule rmatch_literal; simp)
  apply (rule seq_cons[of _ _ _ 8 9])
   apply (rule rmatch_literal; simp)
  apply (rule seq_cons[of _ _ _ 9 9])
   apply (rule m_star_none; simp)
  apply (rule seq_nil; simp)
  done

text \<open>
  C3, as amended. Let \<open>re\<close> be the tree that the pattern parses to once one leading \<open>^\<close> is
  stripped, and let \<open>re\<close> be \<open>guarded\<close>: the literals that the walk reads are
  case-sensitive, and a capture group inside a concatenation that contributes a non-empty
  prefix consists of literals only. Then wherever \<open>re\<close> matches in an input, the input
  from that position on starts with the prefix that \<open>extractRegexPrefix\<close> derives; so
  every input matched from its first byte, as a pattern anchored with \<open>^\<close> matches, starts
  with the extracted prefix. Nothing is said of a match that starts later in the input,
  nor of trees that are not guarded.
\<close>

theorem literal_prefix_sound:
  assumes "syntax_Parse L (strings_TrimPrefix pattern ''^'') syntax_Perl = Inr re"
    and "guarded re" and "rmatch X s re i j"
  shows "prefix (extractRegexPrefix L pattern) (drop i s)"
  using guarded_prefix(1)[OF assms(3,2)] assms(1)
  by (simp add: extractRegexPrefix_def)

theorem literal_prefix_sound_witness:
  "extractRegexPrefix sample_lib ''^/old/(foo)/.*'' = ''/old/foo/''
   \<and> prefix (extractRegexPrefix sample_lib ''^/old/(foo)/.*'') (drop 0 ''/old/foo/bar'')"
proof -
  have p: "syntax_Parse sample_lib (strings_TrimPrefix ''^/old/(foo)/.*'' ''^'') syntax_Perl
           = Inr tree_old"
    by (simp add: sample_lib_def sample_Parse_def strings_TrimPrefix_def xml_pattern_def)
  have g: "guarded tree_old"
    by (simp add: tree_old_def literal_def syntax_Perl_def extract_literal[unfolded literal_def])
  have e: "extractRegexPrefix sample_lib ''^/old/(foo)/.*'' = ''/old/foo/''"
    by code_simp
  from literal_prefix_sound[OF p g rmatch_tree_old[of "\<lambda>_ _ _ _. False"]] e
  show ?thesis by simp
qed

text \<open>
  C3 as stated speaks of every accepted pattern and every input the compiled pattern
  matches. A pattern without a leading anchor is searched for anywhere in the input:
  \<open>v2/items\<close> compiles, matches \<open>/api/v2/items\<close>, and its extracted prefix \<open>v2/items\<close>
  does not start that input.
\<close>

theorem literal_prefix_counterexample:
  "regexp_Compile sample_lib ''v2/items'' = Inr match_items
   \<and> match_items ''/api/v2/items'' = Some [''v2/items'']
   \<and> extractRegexPrefix sample_lib ''v2/items'' = ''v2/items''
   \<and> \<not> prefix (extractRegexPrefix sample_lib ''v2/items'') ''/api/v2/items''"
proof -
  have "regexp_Compile sample_lib ''v2/items'' = Inr match_items"
    by (simp add: sample_lib_def sample_Compile_def)
  moreover have "match_items ''/api/v2/items'' = Some [''v2/items'']"
    "extractRegexPrefix sample_lib ''v2/items'' = ''v2/items''"
    "\<not> prefix (extractRegexPrefix sample_lib ''v2/items'') ''/api/v2/items''"
    by code_simp+
  ultimately show ?thesis by blast
qed

text \<open>
  Outside the guarded trees the walk can overrun. For \<open>^/x(ab*)c\<close> the group contributes
  \<open>a\<close>, the part of it that is literal, and the loop goes on to append the literal \<open>c\<close>
  that follows the group: the extracted prefix is \<open>/xac\<close>. The pattern matches \<open>/xabc\<close>
  from its first byte, which does not start with \<open>/xac\<close>; the rule is stored under a key
  that is no prefix of that input, and \<open>Match\<close> does not find it.
\<close>

lemma rmatch_tree_ab_c: "rmatch X ''/xabc'' tree_ab_c 0 5"
  unfolding tree_ab_c_def
  apply (rule m_concat)
  apply (rule seq_cons[of _ _ _ 0 2])
   apply (rule rmatch_literal; simp)
  apply (rule seq_cons[of _ _ _ 2 4])
   apply (rule m_capture)
   apply (rule m_concat)
   apply (rule seq_cons[of _ _ _ 2 3])
    apply (rule rmatch_literal; simp)
   apply (rule seq_cons[of _ _ _ 3 4])
    apply (rule m_star_more[of _ _ _ 3 4])
     apply (rule rmatch_literal; simp)
    apply (rule m_star_none; simp)
   apply (rule seq_nil; simp)
  apply (rule seq_cons[of _ _ _ 4 5])
   apply (rule rmatch_literal; simp)
  apply (rule seq_nil; simp)
  done

lemma capture_walk_overrun:
  "rmatch X ''/xabc'' tree_ab_c 0 5
   \<and> regexp_Compile sample_lib (Source rule_ab_c) = Inr match_ab_c
   \<and> match_ab_c ''/xabc'' = Some [''/xabc'', ''ab'']
   \<and> extractRegexPrefix sample_lib (Source rule_ab_c) = ''/xac''
   \<and> \<not> prefix ''/xac'' ''/xabc''
   \<and> \<not> guarded tree_ab_c
   \<and> RedirectTree_Match sample_lib (insertAll sample_lib NewRedirectTreeMatcher [rule_ab_c])
        ''example.com'' ''/xabc'' = Inr (None, [])"
proof -
  have "regexp_Compile sample_lib (Source rule_ab_c) = Inr match_ab_c"
    by (simp add: sample_lib_def sample_Compile_def rule_ab_c_def xml_pattern_def)
  moreover have "match_ab_c ''/xabc'' = Some [''/xabc'', ''ab'']"
    "extractRegexPrefix sample_lib (Source rule_ab_c) = ''/xac''"
    "\<not> prefix ''/xac'' ''/xabc''"
    "\<not> guarded tree_ab_c"
    "RedirectTree_Match sample_lib (insertAll sample_lib NewRedirectTreeMatcher [rule_ab_c])
        ''example.com'' ''/xabc'' = Inr (None, [])"
    by code_simp+
  ultimately show ?thesis using rmatch_tree_ab_c[of X] by blast
qed

end
